theory Spec2Isabelle
  imports Complex_Main "HOL-Library.Char_ord" "HOL-Library.List_Lexorder" "HOL-Library.Log_Nat"
begin

section \<open>Values of the amount columns\<close>

text \<open>
  The cells of the \<^verbatim>\<open>debit\<close>, \<open>credit\<close> and \<open>net_amount\<close> columns are Python/numpy
  floats (binary64). The model keeps the numeric value, the sign of a zero and the
  missing value NaN (an empty cell of the file). \<open>Fin q\<close> is the float of value \<open>q\<close>, so
  \<open>Fin 0\<close> is \<open>0.0\<close>; \<open>NegZero\<close> is \<open>-0.0\<close>. Every operation rounds its exact result
  to 53 significant bits, to nearest and ties to even. The exponent is not bounded: the
  overflow to an infinity and the gradual underflow of binary64 are outside the model,
  and a file holds no infinity. A column of whole numbers (int64) is represented by
  the floats of the same values, which computes the same as long as the values and
  their sums stay within \<open>2 ^ 53\<close>.
\<close>

datatype pyfloat = Fin rat | NegZero | NaN

fun val :: "pyfloat \<Rightarrow> rat" where
  "val (Fin q) = q"
| "val NegZero = 0"
| "val NaN = 0"

definition isnan :: "pyfloat \<Rightarrow> bool" where
  "isnan x = (x = NaN)"

text \<open>Rounding to the nearest integer, a tie to the even one.\<close>

definition rhe :: "rat \<Rightarrow> int" where
  "rhe x =
     (let f = \<lfloor>x\<rfloor>; r = x - of_int f
      in if r < 1 / 2 then f
         else if 1 / 2 < r then f + 1
         else if even f then f else f + 1)"

text \<open>
  The binary exponent of a positive rational: \<open>2 powi ilog2 a \<le> a < 2 powi (ilog2 a + 1)\<close>.
  The difference of the bit lengths of numerator and denominator is this exponent or
  one more.
\<close>

definition ilog2 :: "rat \<Rightarrow> int" where
  "ilog2 a =
     (let (n, d) = quotient_of a; k = bitlen n - bitlen d
      in if 2 powi k \<le> a then k else k - 1)"

text \<open>
  The float nearest to a rational: the multiple of the unit in the last place, which
  is \<open>2 powi (ilog2 \<bar>q\<bar> - 52)\<close> for a significand of 53 bits.
\<close>

definition rnd :: "rat \<Rightarrow> rat" where
  "rnd q =
     (if q = 0 then 0
      else let u = 2 powi (ilog2 \<bar>q\<bar> - 52) in of_int (rhe (q / u)) * u)"

text \<open>The negation of a float flips the sign, also of a zero.\<close>

fun fneg :: "pyfloat \<Rightarrow> pyfloat" where
  "fneg NaN = NaN"
| "fneg NegZero = Fin 0"
| "fneg (Fin q) = (if q = 0 then NegZero else Fin (- q))"

text \<open>
  Addition: NaN is absorbing; the sum of two \<open>-0.0\<close> is \<open>-0.0\<close>; every other sum is
  the rounded exact sum, and \<open>0.0\<close> when that is zero, also on cancellation.
\<close>

fun fadd :: "pyfloat \<Rightarrow> pyfloat \<Rightarrow> pyfloat" where
  "fadd NaN y = NaN"
| "fadd x NaN = NaN"
| "fadd NegZero NegZero = NegZero"
| "fadd x y = Fin (rnd (val x + val y))"

text \<open>Python's \<open>a - b\<close> on floats is \<open>a + (-b)\<close>.\<close>

definition fsub :: "pyfloat \<Rightarrow> pyfloat \<Rightarrow> pyfloat" where
  "fsub x y = fadd x (fneg y)"

text \<open>Python's \<open>==\<close> on floats: NaN equals nothing, and \<open>-0.0 == 0.0\<close>.\<close>

definition feq :: "pyfloat \<Rightarrow> pyfloat \<Rightarrow> bool" where
  "feq x y = (\<not> isnan x \<and> \<not> isnan y \<and> val x = val y)"

text \<open>Division of a float by a positive count, as the mean and the median do.\<close>

fun fdiv :: "pyfloat \<Rightarrow> nat \<Rightarrow> pyfloat" where
  "fdiv NaN n = NaN"
| "fdiv NegZero n = NegZero"
| "fdiv (Fin q) n = Fin (rnd (q / of_nat n))"

section \<open>Rows and the errors of the pipeline\<close>

text \<open>
  The model covers files whose columns are among \<^verbatim>\<open>date\<close>, \<open>debit\<close> and \<open>credit\<close>;
  the header of a file says which of them it has.
\<close>

datatype label = Date | Debit | Credit

datatype error =
    KeyError label
  | ValueError
  | EmptyDataError

record amounts =
  debit :: pyfloat
  credit :: pyfloat

text \<open>
  A row handed to \<^verbatim>\<open>calculate_net_amount\<close> is a Series: its labels and its values.
  \<open>getitem\<close> is \<^verbatim>\<open>row[key]\<close>, which raises KeyError for a label the Series does not have;
  the field of an absent column is never read. The date is the index of the frame by
  then and no label of the row.
\<close>

definition getitem :: "label list \<Rightarrow> 'a amounts_scheme \<Rightarrow> label \<Rightarrow> error + pyfloat" where
  "getitem labels row key =
     (if key \<notin> set labels then Inl (KeyError key)
      else (case key of Debit \<Rightarrow> Inr (debit row) | Credit \<Rightarrow> Inr (credit row)
            | Date \<Rightarrow> Inl (KeyError key)))"

section \<open>calculate_net_amount\<close>

text \<open>
  \<^verbatim>\<open>
  def calculate_net_amount(row, analysis_type: str):
      if analysis_type == "Credit Based":
          if row["credit"] - row["debit"] == 0.0:
              return 0.0
          else:
              return row["credit"] - row["debit"]
      elif analysis_type == "Debit Based":
          if row["debit"] - row["credit"] == 0.0:
              return 0.0
          else:
              return row["debit"] - row["credit"]
  \<close>
  The result is \<open>Inl e\<close> when a subscript raises, \<open>Inr None\<close> when the function falls
  off its end (Python's \<open>None\<close>) and \<open>Inr (Some v)\<close> for a returned float. The left
  operand of a subtraction is evaluated first.
\<close>

definition sub_items :: "label list \<Rightarrow> 'a amounts_scheme \<Rightarrow> label \<Rightarrow> label \<Rightarrow> error + pyfloat" where
  "sub_items labels row a b =
     (case getitem labels row a of
        Inl e \<Rightarrow> Inl e
      | Inr x \<Rightarrow> (case getitem labels row b of
                   Inl e \<Rightarrow> Inl e
                 | Inr y \<Rightarrow> Inr (fsub x y)))"

definition calculate_net_amount ::
  "label list \<Rightarrow> 'a amounts_scheme \<Rightarrow> string \<Rightarrow> error + pyfloat option" where
  "calculate_net_amount labels row analysis_type =
     (if analysis_type = ''Credit Based'' then
        (case sub_items labels row Credit Debit of
           Inl e \<Rightarrow> Inl e
         | Inr d \<Rightarrow>
             if feq d (Fin 0) then Inr (Some (Fin 0))
             else (case sub_items labels row Credit Debit of
                     Inl e \<Rightarrow> Inl e
                   | Inr d' \<Rightarrow> Inr (Some d')))
      else if analysis_type = ''Debit Based'' then
        (case sub_items labels row Debit Credit of
           Inl e \<Rightarrow> Inl e
         | Inr d \<Rightarrow>
             if feq d (Fin 0) then Inr (Some (Fin 0))
             else (case sub_items labels row Debit Credit of
                     Inl e \<Rightarrow> Inl e
                   | Inr d' \<Rightarrow> Inr (Some d')))
      else Inr None)"

section \<open>Dates\<close>

text \<open>
  A cell of the \<^verbatim>\<open>date\<close> column after \<^verbatim>\<open>pd.to_datetime\<close>: a calendar date (the time of
  day plays no part in the program).
\<close>

record timestamp =
  year :: nat
  month :: nat
  mday :: nat

text \<open>The number of days from 1970-01-01 to a date of the proleptic Gregorian calendar.\<close>

definition days_from_civil :: "timestamp \<Rightarrow> int" where
  "days_from_civil t =
     (let y = int (year t) - (if month t \<le> 2 then 1 else 0);
          era = y div 400;
          yoe = y - era * 400;
          mp = (if month t > 2 then int (month t) - 3 else int (month t) + 9);
          doy = (153 * mp + 2) div 5 + int (mday t) - 1;
          doe = yoe * 365 + yoe div 4 - yoe div 100 + doy
      in era * 146097 + doe - 719468)"

text \<open>\<^verbatim>\<open>index.dayofweek\<close>: Monday is 0 and Sunday is 6; 1970-01-01 was a Thursday.\<close>

definition dayofweek :: "timestamp \<Rightarrow> nat" where
  "dayofweek t = nat ((days_from_civil t + 3) mod 7)"

definition day_names :: "string list" where
  "day_names = [''Monday'', ''Tuesday'', ''Wednesday'', ''Thursday'', ''Friday'',
                ''Saturday'', ''Sunday'']"

text \<open>\<^verbatim>\<open>strftime("%A")\<close>: the full name of the day of the week.\<close>

definition strftime_A :: "timestamp \<Rightarrow> string" where
  "strftime_A t = day_names ! dayofweek t"

definition month_names :: "string list" where
  "month_names = [''January'', ''February'', ''March'', ''April'', ''May'', ''June'',
                  ''July'', ''August'', ''September'', ''October'', ''November'',
                  ''December'']"

definition digit_chars :: string where
  "digit_chars = ''0123456789''"

fun show_nat :: "nat \<Rightarrow> string" where
  "show_nat n =
     (if n < 10 then [digit_chars ! n]
      else show_nat (n div 10) @ [digit_chars ! (n mod 10)])"

declare show_nat.simps [simp del]

text \<open>
  \<^verbatim>\<open>strftime("%B %Y")\<close>: the full month name, a space and the year in decimal (the years
  of a pandas timestamp, 1677 to 2262, have four digits).
\<close>

definition strftime_B_Y :: "timestamp \<Rightarrow> string" where
  "strftime_B_Y t = month_names ! (month t - 1) @ '' '' @ show_nat (year t)"

text \<open>
  The months of the calendar, numbered in time order, and the last day of a month, which
  is the label that \<^verbatim>\<open>resample("ME")\<close> gives to the bin of that month.
\<close>

definition month_index :: "timestamp \<Rightarrow> nat" where
  "month_index t = year t * 12 + (month t - 1)"

definition is_leap :: "nat \<Rightarrow> bool" where
  "is_leap y = (if y mod 100 = 0 then y mod 400 = 0 else y mod 4 = 0)"

definition days_in_month :: "nat \<Rightarrow> nat \<Rightarrow> nat" where
  "days_in_month y m =
     (if m = 2 then (if is_leap y then 29 else 28)
      else if m \<in> {4, 6, 9, 11} then 30 else 31)"

definition month_end :: "nat \<Rightarrow> timestamp" where
  "month_end k =
     \<lparr>year = k div 12, month = k mod 12 + 1, mday = days_in_month (k div 12) (k mod 12 + 1)\<rparr>"

section \<open>Frames\<close>

text \<open>
  \<open>txn\<close> is a row of the frame as \<^verbatim>\<open>pd.read_csv\<close> returns it, \<open>indexed\<close> a row after
  \<^verbatim>\<open>set_index("date")\<close>, \<open>derived\<close> a row with the \<^verbatim>\<open>net_amount\<close> column. The index of a
  frame is a date in \<^verbatim>\<open>og_df\<close> and in the monthly tables, and a day name in the weekday
  table.
\<close>

record txn = amounts +
  date :: timestamp

record 'i indexed = amounts +
  index :: 'i

record 'i derived = "'i indexed" +
  net_amount :: pyfloat

record dataframe =
  columns :: "label list"
  rows :: "txn list"

text \<open>\<^verbatim>\<open>DataFrame.empty\<close>: one of the two axes has length 0.\<close>

definition is_empty :: "dataframe \<Rightarrow> bool" where
  "is_empty df = (columns df = [] \<or> rows df = [])"

text \<open>
  An uploaded file, as far as \<^verbatim>\<open>pd.read_csv\<close> reads it: the labels of its header line
  and its data lines. A file without a header line has no columns to parse, and
  \<^verbatim>\<open>pd.read_csv\<close> raises EmptyDataError.
\<close>

record csv_file =
  header :: "label list"
  lines :: "txn list"

definition read_csv :: "csv_file \<Rightarrow> error + dataframe" where
  "read_csv f =
     (if header f = [] then Inl EmptyDataError
      else Inr \<lparr>columns = header f, rows = lines f\<rparr>)"

section \<open>Reductions that skip missing values\<close>

definition notna :: "pyfloat list \<Rightarrow> pyfloat list" where
  "notna xs = filter (\<lambda>x. \<not> isnan x) xs"

text \<open>
  The plain sum of a list of values: those that are not missing are added from left to
  right, starting from \<open>0.0\<close> and rounding every addition. No aggregate of the program
  is computed this way (see \<open>group_sum\<close> below); it is the sum over all months and the
  sum over the entire input in which the conservation law of the monthly sums is stated.
\<close>

definition nansum :: "pyfloat list \<Rightarrow> pyfloat" where
  "nansum xs = foldl fadd (Fin 0) (notna xs)"

text \<open>
  The sums of \<^verbatim>\<open>resample(...).sum()\<close> and \<^verbatim>\<open>groupby(...).sum()\<close> are compensated (Kahan)
  sums. For every value of a group that is not missing:
  \<^verbatim>\<open>
  y = val - compensation
  t = sumx + y
  compensation = t - sumx - y
  if compensation != compensation: compensation = 0
  sumx = t
  \<close>
  with \<open>sumx\<close> and \<open>compensation\<close> starting at \<open>0.0\<close>. With min_count 0 the sum of no
  value is \<open>0.0\<close>.
\<close>

fun kahan_step :: "pyfloat \<times> pyfloat \<Rightarrow> pyfloat \<Rightarrow> pyfloat \<times> pyfloat" where
  "kahan_step (sumx, compensation) v =
     (let y = fsub v compensation;
          t = fadd sumx y;
          c = fsub (fsub t sumx) y
      in (t, if isnan c then Fin 0 else c))"

definition group_sum :: "pyfloat list \<Rightarrow> pyfloat" where
  "group_sum xs = fst (foldl kahan_step (Fin 0, Fin 0) (notna xs))"

text \<open>
  \<^verbatim>\<open>mean\<close> of a group: the compensated sum divided by the number of values that are not
  missing; the mean of no value is missing.
\<close>

definition group_mean :: "pyfloat list \<Rightarrow> pyfloat" where
  "group_mean xs =
     (let ys = notna xs
      in if ys = [] then NaN else fdiv (group_sum ys) (length ys))"

text \<open>
  \<^verbatim>\<open>median\<close>: the middle of the sorted values, or the mean of the two middle ones.
\<close>

definition nanmedian :: "pyfloat list \<Rightarrow> pyfloat" where
  "nanmedian xs =
     (let ys = sort_key val (notna xs); n = length ys
      in if n = 0 then NaN
         else if odd n then ys ! (n div 2)
         else fdiv (fadd (ys ! (n div 2 - 1)) (ys ! (n div 2))) 2)"

text \<open>One row of an aggregate: the reduction of every column of a group of rows.\<close>

definition agg :: "(pyfloat list \<Rightarrow> pyfloat) \<Rightarrow> 'i \<Rightarrow> 'j derived list \<Rightarrow> 'i derived" where
  "agg f i g =
     \<lparr>debit = f (map debit g), credit = f (map credit g), index = i,
      net_amount = f (map net_amount g)\<rparr>"

section \<open>Monthly aggregation\<close>

text \<open>
  \<^verbatim>\<open>df.resample("ME")\<close> sorts the rows by date and cuts the span from the first to the
  last date into calendar months: one bin for every month from the earliest to the
  latest, labelled by the last day of the month, also for a month in between that has no
  row. An empty frame has no bin.
\<close>

definition resample_ME :: "timestamp derived list \<Rightarrow> (timestamp \<times> timestamp derived list) list" where
  "resample_ME df =
     (if df = [] then []
      else
        let sorted = sort_key (\<lambda>r. days_from_civil (index r)) df;
            ks = map (\<lambda>r. month_index (index r)) sorted;
            lo = Min (set ks);
            hi = Max (set ks)
        in map (\<lambda>k. (month_end k, filter (\<lambda>r. month_index (index r) = k) sorted))
             [lo ..< Suc hi])"

text \<open>The months of the bins, and the rows of the bin of a month.\<close>

definition month_bins :: "timestamp derived list \<Rightarrow> nat list" where
  "month_bins df =
     (if df = [] then []
      else [Min (set (map (\<lambda>r. month_index (index r)) df))
            ..< Suc (Max (set (map (\<lambda>r. month_index (index r)) df)))])"

definition month_rows :: "timestamp derived list \<Rightarrow> nat \<Rightarrow> timestamp derived list" where
  "month_rows df k =
     filter (\<lambda>r. month_index (index r) = k) (sort_key (\<lambda>r. days_from_civil (index r)) df)"

text \<open>
  \<^verbatim>\<open>
  def compute_monthly_sum(df: pd.DataFrame):
      monthly_df = df.resample("ME").sum().reset_index()
      monthly_df["date"] = pd.to_datetime(monthly_df["date"])
      monthly_df.set_index("date", inplace=True)
      return monthly_df
  \<close>
  \<^verbatim>\<open>reset_index\<close>, \<^verbatim>\<open>to_datetime\<close> on a column of dates and \<^verbatim>\<open>set_index\<close> give back the
  frame that the reduction returned. The average and the median are the same function
  with \<^verbatim>\<open>mean\<close> and \<^verbatim>\<open>median\<close> for \<^verbatim>\<open>sum\<close>.
\<close>

definition compute_monthly_sum :: "timestamp derived list \<Rightarrow> timestamp derived list" where
  "compute_monthly_sum df = map (\<lambda>(e, g). agg group_sum e g) (resample_ME df)"

definition compute_monthly_average :: "timestamp derived list \<Rightarrow> timestamp derived list" where
  "compute_monthly_average df = map (\<lambda>(e, g). agg group_mean e g) (resample_ME df)"

definition compute_monthly_median :: "timestamp derived list \<Rightarrow> timestamp derived list" where
  "compute_monthly_median df = map (\<lambda>(e, g). agg nanmedian e g) (resample_ME df)"

section \<open>Weekday aggregation\<close>

text \<open>
  \<^verbatim>\<open>df.groupby(key).sum()\<close>: one row for every key that occurs, in sorted key order, with
  the sums of the columns over the rows of that key.
\<close>

definition groupby_sum :: "(string \<times> 'i derived) list \<Rightarrow> string derived list" where
  "groupby_sum keyed =
     map (\<lambda>k. agg group_sum k (map snd (filter (\<lambda>(n, r). n = k) keyed)))
       (sort (remdups (map fst keyed)))"

text \<open>
  \<^verbatim>\<open>reindex(labels)\<close>: the row of every label in the order given, and a row of missing
  values for a label the frame does not have.
\<close>

definition reindex :: "string derived list \<Rightarrow> string list \<Rightarrow> string derived list" where
  "reindex tbl labels =
     map (\<lambda>l. case find (\<lambda>r. index r = l) tbl of
                 Some r \<Rightarrow> r
               | None \<Rightarrow> \<lparr>debit = NaN, credit = NaN, index = l, net_amount = NaN\<rparr>)
       labels"

record weekday = "string derived" +
  day :: string

text \<open>
  \<^verbatim>\<open>
  def compute_weekday_sum(df: pd.DataFrame):
      df = df[df.index.dayofweek < 5]
      df["day_name"] = df.index.strftime("%A")
      weekday_df = df.groupby(df["day_name"]).sum()
      re_order = ["Monday", "Tuesday", "Wednesday", "Thursday", "Friday"]
      weekday_df = weekday_df.reindex(re_order)
      weekday_df["day"] = weekday_df.index
      return weekday_df
  \<close>
  The grouping column \<^verbatim>\<open>day_name\<close> is the key of the groups and is not summed.
\<close>

definition compute_weekday_sum :: "timestamp derived list \<Rightarrow> weekday list" where
  "compute_weekday_sum df0 =
     (let df = filter (\<lambda>r. dayofweek (index r) < 5) df0;
          day_name = map (\<lambda>r. strftime_A (index r)) df;
          weekday_df = groupby_sum (zip day_name df);
          re_order = [''Monday'', ''Tuesday'', ''Wednesday'', ''Thursday'', ''Friday''];
          weekday_df = reindex weekday_df re_order
      in map (\<lambda>r. \<lparr>debit = debit r, credit = credit r, index = index r,
                     net_amount = net_amount r, day = index r\<rparr>) weekday_df)"

section \<open>main\<close>

text \<open>
  \<^verbatim>\<open>pd.merge(left, right, how="inner", on=key)\<close>, with the key column first in each row: the
  pairs of a left and a right row of equal key, in the order of the left rows.
\<close>

definition merge :: "(string \<times> 'a) list \<Rightarrow> (string \<times> 'b) list \<Rightarrow> (string \<times> ('a \<times> 'b)) list" where
  "merge left right =
     concat (map (\<lambda>(k, a). map (\<lambda>(k', b). (k, (a, b))) (filter (\<lambda>(k', b). k' = k) right)) left)"

record merged = amounts +
  month_name :: string
  sum_net_amount :: pyfloat
  avg_net_amount :: pyfloat
  median_net_amount :: pyfloat

text \<open>
  What the page shows. A chart is its traces, a trace its name and its points
  \<open>(x, y)\<close>; \<^verbatim>\<open>st.columns(2)\<close> is the pair of the two panels.
\<close>

type_synonym trace = "string \<times> (string \<times> pyfloat) list"

datatype element =
    Title string
  | Markdown string
  | FileUploader string
  | Subheader string
  | PlotlyChart "trace list"
  | Columns "element list" "element list"

text \<open>
  Lines 43 and 44: \<^verbatim>\<open>og_df["date"]\<close> raises KeyError when the file has no such column;
  afterwards the date is the index and no column.
\<close>

definition set_index :: "dataframe \<Rightarrow> error + label list \<times> timestamp indexed list" where
  "set_index df =
     (if Date \<notin> set (columns df) then Inl (KeyError Date)
      else Inr (removeAll Date (columns df),
                map (\<lambda>r. \<lparr>debit = debit r, credit = credit r, index = date r\<rparr>) (rows df)))"

text \<open>The first exception ends a loop over the rows.\<close>

fun map_result :: "('a \<Rightarrow> error + 'b) \<Rightarrow> 'a list \<Rightarrow> error + 'b list" where
  "map_result f [] = Inr []"
| "map_result f (x # xs) =
     (case f x of
        Inl e \<Rightarrow> Inl e
      | Inr y \<Rightarrow> (case map_result f xs of Inl e \<Rightarrow> Inl e | Inr ys \<Rightarrow> Inr (y # ys)))"

text \<open>
  Lines 49 to 52:
  \<^verbatim>\<open>
  og_df["net_amount"] = og_df.apply(
      lambda x: calculate_net_amount(x, "Credit Based"), axis=1)
  \<close>
  The frame has rows here. When it has no column left, \<^verbatim>\<open>apply\<close> calls nothing and
  returns a frame without columns, and the assignment of that frame to one column raises
  ValueError. A \<open>None\<close> of the function would be a missing value of the column.
\<close>

definition apply_net_amount :: "label list \<Rightarrow> timestamp indexed list \<Rightarrow> error + timestamp derived list" where
  "apply_net_amount labels df =
     (if labels = [] then Inl ValueError
      else map_result
             (\<lambda>x. case calculate_net_amount labels x ''Credit Based'' of
                     Inl e \<Rightarrow> Inl e
                   | Inr v \<Rightarrow>
                       Inr \<lparr>debit = debit x, credit = credit x, index = index x,
                            net_amount = (case v of Some a \<Rightarrow> a | None \<Rightarrow> NaN)\<rparr>)
             df)"

text \<open>
  Lines 54 to 96: the three monthly tables get their \<^verbatim>\<open>month_name\<close> column, the average
  and the median table are cut down to their net amount and the month name, the tables
  are joined on the month name and the columns of the result are put in order.
\<close>

definition with_month_name :: "timestamp derived list \<Rightarrow> (string \<times> timestamp derived) list" where
  "with_month_name df = map (\<lambda>r. (strftime_B_Y (index r), r)) df"

definition merged_df :: "timestamp derived list \<Rightarrow> merged list" where
  "merged_df og_df =
     (let monthly_sum_df = with_month_name (compute_monthly_sum og_df);
          monthly_average_df = with_month_name (compute_monthly_average og_df);
          monthly_median_df = with_month_name (compute_monthly_median og_df);
          m1 = merge monthly_sum_df (map (\<lambda>(n, r). (n, net_amount r)) monthly_average_df);
          m2 = merge m1 (map (\<lambda>(n, r). (n, net_amount r)) monthly_median_df)
      in map (\<lambda>(n, ((s, a), m)).
                \<lparr>debit = debit s, credit = credit s, month_name = n,
                 sum_net_amount = net_amount s, avg_net_amount = a,
                 median_net_amount = m\<rparr>) m2)"

definition preamble :: "element list" where
  "preamble =
     [Title '' :bar_chart: Financial Analysis Tool'',
      Markdown ''<style>div.block-container{padding-top:3rem;}</style>'',
      FileUploader '':file_folder: To start your analysis upload a file'']"

definition col1 :: "merged list \<Rightarrow> element list" where
  "col1 m =
     [Subheader ''Net Amount by Month'',
      PlotlyChart [(''Net Amount per Month'', map (\<lambda>r. (month_name r, sum_net_amount r)) m)],
      Subheader ''Monthly Average & Median'',
      PlotlyChart [(''Average'', map (\<lambda>r. (month_name r, avg_net_amount r)) m),
                   (''Median'', map (\<lambda>r. (month_name r, median_net_amount r)) m)]]"

definition col2 :: "weekday list \<Rightarrow> element list" where
  "col2 w =
     [Subheader ''Net Amount per Weekday'',
      PlotlyChart [(''Net amount per weekday'', map (\<lambda>r. (day r, net_amount r)) w)]]"

text \<open>
  \<open>main\<close> with the uploaded file as its argument (\<open>None\<close>: nothing uploaded). The result
  is the page, or the exception that ends the run.
\<close>

definition main :: "csv_file option \<Rightarrow> error + element list" where
  "main uploaded_file =
     (case (case uploaded_file of
              None \<Rightarrow> Inr \<lparr>columns = [], rows = []\<rparr>
            | Some f \<Rightarrow> read_csv f) of
        Inl e \<Rightarrow> Inl e
      | Inr og_df \<Rightarrow>
          if is_empty og_df then Inr preamble
          else (case set_index og_df of
                  Inl e \<Rightarrow> Inl e
                | Inr (labels, df) \<Rightarrow>
                    (case apply_net_amount labels df of
                       Inl e \<Rightarrow> Inl e
                     | Inr og_df' \<Rightarrow>
                         Inr (preamble @
                              [Columns (col1 (merged_df og_df'))
                                       (col2 (compute_weekday_sum og_df'))]))))"


text \<open>The charts that a page shows, those inside the two panels included.\<close>

fun charts_of :: "element \<Rightarrow> trace list list" where
  "charts_of (PlotlyChart ts) = [ts]"
| "charts_of (Columns l r) = concat (map charts_of l) @ concat (map charts_of r)"
| "charts_of _ = []"

definition charts :: "element list \<Rightarrow> trace list list" where
  "charts p = concat (map charts_of p)"

section \<open>The scenario of the specification\<close>

text \<open>
  The three rows of the worked scenario: 2024-01-05 with debit 10 and credit 40,
  2024-01-20 with debit 5 and credit 5, 2024-02-01 with debit 0 and credit 20; and the
  frame that the scenario expects after the net amount is derived.
\<close>

definition scenario_file :: csv_file where
  "scenario_file = \<lparr>header = [Date, Debit, Credit], lines =
     [\<lparr>debit = Fin 10, credit = Fin 40, date = \<lparr>year = 2024, month = 1, mday = 5\<rparr>\<rparr>,
      \<lparr>debit = Fin 5, credit = Fin 5, date = \<lparr>year = 2024, month = 1, mday = 20\<rparr>\<rparr>,
      \<lparr>debit = Fin 0, credit = Fin 20, date = \<lparr>year = 2024, month = 2, mday = 1\<rparr>\<rparr>]\<rparr>"

definition scenario_og :: "timestamp derived list" where
  "scenario_og =
     [\<lparr>debit = Fin 10, credit = Fin 40, index = \<lparr>year = 2024, month = 1, mday = 5\<rparr>,
       net_amount = Fin 30\<rparr>,
      \<lparr>debit = Fin 5, credit = Fin 5, index = \<lparr>year = 2024, month = 1, mday = 20\<rparr>,
       net_amount = Fin 0\<rparr>,
      \<lparr>debit = Fin 0, credit = Fin 20, index = \<lparr>year = 2024, month = 2, mday = 1\<rparr>,
       net_amount = Fin 20\<rparr>]"

section \<open>Rounding\<close>

lemma rhe_int: "x \<in> \<int> \<Longrightarrow> of_int (rhe x) = x"
  by (auto simp: rhe_def Ints_def)

lemma two_powi_bitlen: "0 < x \<Longrightarrow> of_int x < (2::rat) powi bitlen x"
proof -
  assume x: "0 < x"
  from bitlen_bounds [OF x] have "x < 2 ^ nat (bitlen x)" by simp
  then have "(of_int x :: rat) < of_int (2 ^ nat (bitlen x))"
    by (simp only: of_int_less_iff)
  also have "\<dots> = 2 powi bitlen x"
    using bitlen_nonneg [of x] by (simp add: power_int_def)
  finally show ?thesis .
qed

lemma two_powi_bitlen_le: "0 < x \<Longrightarrow> (2::rat) powi (bitlen x - 1) \<le> of_int x"
proof -
  assume x: "0 < x"
  then have b: "1 \<le> bitlen x" by (auto simp: bitlen_alt_def)
  have "(2::rat) powi (bitlen x - 1) = of_int (2 ^ nat (bitlen x - 1))"
    using b by (simp add: power_int_def)
  also from bitlen_bounds [OF x] have "2 ^ nat (bitlen x - 1) \<le> x" by simp
  then have "(of_int (2 ^ nat (bitlen x - 1)) :: rat) \<le> of_int x"
    by (simp only: of_int_le_iff)
  finally show ?thesis .
qed

lemma ilog2_bounds:
  assumes "0 < a"
  shows "2 powi ilog2 a \<le> a" and "a < 2 powi (ilog2 a + 1)"
proof -
  obtain n d where q: "quotient_of a = (n, d)" by (cases "quotient_of a")
  then have d: "0 < d" and a: "a = of_int n / of_int d"
    by (simp_all add: quotient_of_denom_pos quotient_of_div)
  from assms a d have n: "0 < n" by (simp add: zero_less_divide_iff)
  let ?k = "bitlen n - bitlen d"
  have dpos: "(0::rat) < of_int d" using d by simp
  have up: "a < 2 powi (?k + 1)"
  proof -
    have "of_int n < (2::rat) powi bitlen n" by (rule two_powi_bitlen [OF n])
    also have "\<dots> = 2 powi (?k + 1) * 2 powi (bitlen d - 1)"
      by (simp flip: power_int_add)
    also have "\<dots> \<le> 2 powi (?k + 1) * of_int d"
      by (intro mult_left_mono two_powi_bitlen_le [OF d]) simp
    finally have "of_int n / of_int d < (2::rat) powi (?k + 1)"
      using dpos by (simp add: pos_divide_less_eq)
    then show ?thesis by (simp only: a)
  qed
  have lo: "2 powi (?k - 1) \<le> a"
  proof -
    have "(2::rat) powi (?k - 1) * of_int d \<le> 2 powi (?k - 1) * 2 powi bitlen d"
      by (intro mult_left_mono less_imp_le [OF two_powi_bitlen [OF d]]) simp
    also have "\<dots> = 2 powi (bitlen n - 1)"
      by (simp flip: power_int_add)
    also have "\<dots> \<le> of_int n" by (rule two_powi_bitlen_le [OF n])
    finally have "(2::rat) powi (?k - 1) \<le> of_int n / of_int d"
      using dpos by (simp add: pos_le_divide_eq)
    then show ?thesis by (simp only: a)
  qed
  show "2 powi ilog2 a \<le> a"
    using lo by (simp add: ilog2_def q Let_def)
  show "a < 2 powi (ilog2 a + 1)"
    using up by (auto simp: ilog2_def q Let_def not_le)
qed

lemma ilog2_unique:
  assumes "0 < a" and "2 powi k \<le> a" and "a < 2 powi (k + 1)"
  shows "ilog2 a = k"
proof (rule antisym)
  show "ilog2 a \<le> k"
  proof (rule ccontr)
    assume "\<not> ilog2 a \<le> k"
    then have "k + 1 \<le> ilog2 a" by simp
    then have "(2::rat) powi (k + 1) \<le> 2 powi ilog2 a"
      by (intro power_int_increasing) simp_all
    also have "\<dots> \<le> a" by (rule ilog2_bounds(1) [OF assms(1)])
    finally show False using assms(3) by simp
  qed
  show "k \<le> ilog2 a"
  proof (rule ccontr)
    assume "\<not> k \<le> ilog2 a"
    then have "ilog2 a + 1 \<le> k" by simp
    then have "(2::rat) powi (ilog2 a + 1) \<le> 2 powi k"
      by (intro power_int_increasing) simp_all
    also have "\<dots> \<le> a" by (rule assms(2))
    finally show False using ilog2_bounds(2) [OF assms(1)] by simp
  qed
qed

lemma rnd_formula:
  assumes "q \<noteq> 0" and "2 powi k \<le> \<bar>q\<bar>" and "\<bar>q\<bar> < 2 powi (k + 1)"
  shows "rnd q = of_int (rhe (q / 2 powi (k - 52))) * 2 powi (k - 52)"
proof -
  from assms(1) have "0 < \<bar>q\<bar>" by simp
  from ilog2_unique [OF this assms(2,3)] assms(1) show ?thesis
    by (simp add: rnd_def Let_def)
qed

lemma rnd_exact:
  assumes "q / 2 powi (ilog2 \<bar>q\<bar> - 52) \<in> \<int>"
  shows "rnd q = q"
proof (cases "q = 0")
  case True
  then show ?thesis by (simp add: rnd_def)
next
  case False
  have "(2::rat) powi (ilog2 \<bar>q\<bar> - 52) \<noteq> 0" by simp
  with False rhe_int [OF assms] show ?thesis
    by (simp add: rnd_def Let_def)
qed

lemma rnd_int:
  assumes "q \<in> \<int>" and "\<bar>q\<bar> \<le> 2 ^ 53"
  shows "rnd q = q"
proof (cases "q = 0")
  case True
  then show ?thesis by (simp add: rnd_def)
next
  case False
  let ?k = "ilog2 \<bar>q\<bar>"
  from False have pos: "0 < \<bar>q\<bar>" by simp
  have "(2::rat) powi ?k \<le> \<bar>q\<bar>" by (rule ilog2_bounds(1) [OF pos])
  also have "\<bar>q\<bar> \<le> 2 ^ 53" by (rule assms(2))
  also have "(2::rat) ^ 53 < 2 powi 54" by simp
  finally have "?k < 54"
    by (rule power_int_le_imp_less_exp [rotated]) simp_all
  then consider "?k \<le> 52" | "?k = 53" by linarith
  then have "q / 2 powi (?k - 52) \<in> \<int>"
  proof cases
    case 1
    then have "(2::rat) powi (?k - 52) = inverse (2 ^ nat (52 - ?k))"
      by (simp add: power_int_def power_one_over inverse_eq_divide)
    then have "q / 2 powi (?k - 52) = q * 2 ^ nat (52 - ?k)"
      by (simp add: divide_inverse)
    with assms(1) show ?thesis by simp
  next
    case 2
    from ilog2_bounds(1) [OF pos] 2 have "2 ^ 53 \<le> \<bar>q\<bar>" by simp
    with assms(2) have "\<bar>q\<bar> = 2 ^ 53" by simp
    then have "q = 2 ^ 53 \<or> q = - (2 ^ 53)" by (simp add: abs_if split: if_splits)
    then show ?thesis using 2 by auto
  qed
  then show ?thesis by (rule rnd_exact)
qed

lemma rnd_numeral [simp]:
  "numeral k \<le> (9007199254740992 :: int) \<Longrightarrow> rnd (numeral k) = numeral k"
proof -
  assume "numeral k \<le> (9007199254740992 :: int)"
  then have "(of_int (numeral k) :: rat) \<le> of_int 9007199254740992"
    by (simp only: of_int_le_iff)
  then have "\<bar>numeral k :: rat\<bar> \<le> 2 ^ 53" by simp
  then show ?thesis by (intro rnd_int) simp_all
qed

lemma rnd_0 [simp]: "rnd 0 = 0"
  by (simp add: rnd_def)

lemma rnd_1 [simp]: "rnd 1 = 1"
  by (rule rnd_int) simp_all

lemma rnd_neg_numeral [simp]:
  "numeral k \<le> (9007199254740992 :: int) \<Longrightarrow> rnd (- numeral k) = - numeral k"
proof -
  assume "numeral k \<le> (9007199254740992 :: int)"
  then have "(of_int (numeral k) :: rat) \<le> of_int 9007199254740992"
    by (simp only: of_int_le_iff)
  then have "\<bar>- numeral k :: rat\<bar> \<le> 2 ^ 53" by simp
  then show ?thesis by (intro rnd_int) simp_all
qed

section \<open>Net amount of a row\<close>

lemma fsub_cases:
  "fsub x y = (if isnan x \<or> isnan y then NaN
               else if x = NegZero \<and> y = Fin 0 then NegZero
               else Fin (rnd (val x - val y)))"
  by (cases x; cases y) (auto simp: fsub_def isnan_def)

lemma feq_zero: "feq d (Fin 0) \<longleftrightarrow> d = Fin 0 \<or> d = NegZero"
  by (cases d) (auto simp: feq_def isnan_def)

lemma sub_items_Inr:
  "a \<in> set labels \<Longrightarrow> b \<in> set labels \<Longrightarrow> a \<noteq> Date \<Longrightarrow> b \<noteq> Date \<Longrightarrow>
   sub_items labels row a b =
     Inr (fsub (case a of Debit \<Rightarrow> debit row | _ \<Rightarrow> credit row)
               (case b of Debit \<Rightarrow> debit row | _ \<Rightarrow> credit row))"
  by (cases a; cases b) (simp_all add: sub_items_def getitem_def)

text \<open>
  C1. For every record that has both columns, the credit-based net amount is the float
  \<open>credit - debit\<close>, except that a difference that compares equal to \<open>0.0\<close> is stored as
  \<open>0.0\<close>: the value is never \<open>-0.0\<close>. On amounts that are not missing it is the
  exact difference rounded to a float.
\<close>

theorem credit_based_net_amount:
  assumes "Credit \<in> set labels" and "Debit \<in> set labels"
  shows "\<exists>v. calculate_net_amount labels row ''Credit Based'' = Inr (Some v)
           \<and> v \<noteq> NegZero
           \<and> (if feq (fsub (credit row) (debit row)) (Fin 0) then v = Fin 0
               else v = fsub (credit row) (debit row))
           \<and> (\<not> isnan (credit row) \<and> \<not> isnan (debit row) \<longrightarrow>
                 v = Fin (rnd (val (credit row) - val (debit row))))"
proof -
  let ?d = "fsub (credit row) (debit row)"
  have s: "sub_items labels row Credit Debit = Inr ?d"
    using assms by (simp add: sub_items_Inr)
  show ?thesis
  proof (cases "feq ?d (Fin 0)")
    case True
    then have "calculate_net_amount labels row ''Credit Based'' = Inr (Some (Fin 0))"
      by (simp add: calculate_net_amount_def s)
    moreover have "\<not> isnan (credit row) \<and> \<not> isnan (debit row) \<longrightarrow>
        Fin 0 = Fin (rnd (val (credit row) - val (debit row)))"
      using True by (auto simp: feq_zero fsub_cases split: if_splits)
    ultimately show ?thesis using True by simp
  next
    case False
    then have "calculate_net_amount labels row ''Credit Based'' = Inr (Some ?d)"
      by (simp add: calculate_net_amount_def s)
    moreover have "?d \<noteq> NegZero" using False by (simp add: feq_zero)
    moreover have "\<not> isnan (credit row) \<and> \<not> isnan (debit row) \<longrightarrow>
        ?d = Fin (rnd (val (credit row) - val (debit row)))"
      using False by (auto simp: feq_zero fsub_cases split: if_splits)
    ultimately show ?thesis using False by simp
  qed
qed

theorem credit_based_net_amount_witness:
  "Credit \<in> set [Debit, Credit] \<and> Debit \<in> set [Debit, Credit]
   \<and> fsub NegZero (Fin 0) = NegZero
   \<and> calculate_net_amount [Debit, Credit] \<lparr>debit = Fin 0, credit = NegZero\<rparr> ''Credit Based''
       = Inr (Some (Fin 0))
   \<and> calculate_net_amount [Debit, Credit] \<lparr>debit = Fin 10, credit = Fin 40\<rparr> ''Credit Based''
       = Inr (Some (Fin 30))"
proof -
  have h1: "Credit \<in> set [Debit, Credit]" and h2: "Debit \<in> set [Debit, Credit]" by simp_all
  have z: "fsub NegZero (Fin 0) = NegZero" by (simp add: fsub_def)
  from credit_based_net_amount [OF h1 h2, of "\<lparr>debit = Fin 0, credit = NegZero\<rparr>"]
  have a: "calculate_net_amount [Debit, Credit] \<lparr>debit = Fin 0, credit = NegZero\<rparr> ''Credit Based''
       = Inr (Some (Fin 0))"
    by (auto simp: z feq_def isnan_def)
  from credit_based_net_amount [OF h1 h2, of "\<lparr>debit = Fin 10, credit = Fin 40\<rparr>"]
  have b: "calculate_net_amount [Debit, Credit] \<lparr>debit = Fin 10, credit = Fin 40\<rparr> ''Credit Based''
       = Inr (Some (Fin 30))"
    by (auto simp: isnan_def)
  show ?thesis using h1 h2 z a b by blast
qed

text \<open>
  C10. With an analysis type other than "Credit Based" and "Debit Based" the function
  returns \<open>None\<close> for every row, whatever its labels: it reads no cell, raises nothing
  and computes no net amount.
\<close>

theorem other_analysis_type_returns_None:
  assumes "analysis_type \<noteq> ''Credit Based''" and "analysis_type \<noteq> ''Debit Based''"
  shows "calculate_net_amount labels row analysis_type = Inr None"
  using assms by (simp add: calculate_net_amount_def)

theorem other_analysis_type_returns_None_witness:
  "''Net Based'' \<noteq> ''Credit Based'' \<and> ''Net Based'' \<noteq> ''Debit Based''
   \<and> calculate_net_amount [] \<lparr>debit = NaN, credit = NaN\<rparr> ''Net Based'' = Inr None"
proof -
  have h1: "''Net Based'' \<noteq> ''Credit Based''" and h2: "''Net Based'' \<noteq> ''Debit Based''"
    by simp_all
  show ?thesis
    using h1 h2 other_analysis_type_returns_None [OF h1 h2, of "[]" "\<lparr>debit = NaN, credit = NaN\<rparr>"]
    by blast
qed

section \<open>The two strategies and the caller\<close>

lemma map_result_Inr:
  "map_result f xs = Inr ys \<Longrightarrow>
     length ys = length xs \<and> (\<forall>i < length xs. f (xs ! i) = Inr (ys ! i))"
proof (induction xs arbitrary: ys)
  case Nil
  then show ?case by simp
next
  case (Cons x xs)
  from Cons.prems obtain y ys' where fx: "f x = Inr y" and r: "map_result f xs = Inr ys'"
    and ys: "ys = y # ys'"
    by (auto split: sum.splits)
  from Cons.IH [OF r] have l: "length ys' = length xs"
    and a: "\<forall>i < length xs. f (xs ! i) = Inr (ys' ! i)" by simp_all
  show ?case using fx l a ys by (auto simp: nth_Cons split: nat.splits)
qed

lemma apply_net_amount_Inr:
  assumes "apply_net_amount labels df = Inr og"
  shows "length og = length df \<and>
         (\<forall>i < length df. \<exists>v. calculate_net_amount labels (df ! i) ''Credit Based'' = Inr v
              \<and> og ! i = \<lparr>debit = debit (df ! i), credit = credit (df ! i),
                           index = index (df ! i),
                           net_amount = (case v of Some a \<Rightarrow> a | None \<Rightarrow> NaN)\<rparr>)"
proof -
  let ?f = "\<lambda>x. case calculate_net_amount labels x ''Credit Based'' of
                     Inl e \<Rightarrow> Inl e
                   | Inr v \<Rightarrow>
                       Inr \<lparr>debit = debit x, credit = credit x, index = index x,
                            net_amount = (case v of Some a \<Rightarrow> a | None \<Rightarrow> NaN)\<rparr>"
  from assms have m: "map_result ?f df = Inr og"
    by (simp add: apply_net_amount_def split: if_splits)
  from map_result_Inr [OF m] have l: "length og = length df"
    and a: "\<forall>i < length df. ?f (df ! i) = Inr (og ! i)" by simp_all
  have "\<exists>v. calculate_net_amount labels (df ! i) ''Credit Based'' = Inr v
              \<and> og ! i = \<lparr>debit = debit (df ! i), credit = credit (df ! i),
                           index = index (df ! i),
                           net_amount = (case v of Some a \<Rightarrow> a | None \<Rightarrow> NaN)\<rparr>"
    if "i < length df" for i
  proof -
    from a that have e: "?f (df ! i) = Inr (og ! i)" by blast
    show ?thesis
    proof (cases "calculate_net_amount labels (df ! i) ''Credit Based''")
      case (Inl e')
      with e show ?thesis by simp
    next
      case (Inr v)
      with e show ?thesis by auto
    qed
  qed
  with l show ?thesis by blast
qed

text \<open>
  C8. The function has a second strategy beside the credit-based one: with "Debit Based"
  the net amount of a record is the float \<open>debit - credit\<close>, with the same storing of
  a zero difference as \<open>0.0\<close>. Both strategies return a value for every record that has
  both columns, and the caller takes the credit-based one: the \<open>net_amount\<close> column that
  \<open>main\<close> derives holds the credit-based value of every row.
\<close>

theorem debit_based_net_amount:
  assumes "Credit \<in> set labels" and "Debit \<in> set labels"
  shows "(\<exists>v. calculate_net_amount labels row ''Debit Based'' = Inr (Some v)
           \<and> v \<noteq> NegZero
           \<and> (if feq (fsub (debit row) (credit row)) (Fin 0) then v = Fin 0
               else v = fsub (debit row) (credit row))
           \<and> (\<not> isnan (credit row) \<and> \<not> isnan (debit row) \<longrightarrow>
                 v = Fin (rnd (val (debit row) - val (credit row)))))
       \<and> (\<exists>w. calculate_net_amount labels row ''Credit Based'' = Inr (Some w))
       \<and> (\<forall>df og. apply_net_amount labels df = Inr og \<longrightarrow>
             length og = length df \<and>
             (\<forall>i < length df.
                calculate_net_amount labels (df ! i) ''Credit Based''
                  = Inr (Some (net_amount (og ! i)))))"
proof -
  let ?d = "fsub (debit row) (credit row)"
  have s: "sub_items labels row Debit Credit = Inr ?d"
    using assms by (simp add: sub_items_Inr)
  have c: "sub_items labels x Credit Debit = Inr (fsub (credit x) (debit x))" for x :: "'b amounts_scheme"
    using assms by (simp add: sub_items_Inr)
  have some: "\<exists>w. calculate_net_amount labels x ''Credit Based'' = Inr (Some w)"
    for x :: "'b amounts_scheme"
    by (simp add: calculate_net_amount_def c)
  have first: "\<exists>v. calculate_net_amount labels row ''Debit Based'' = Inr (Some v)
           \<and> v \<noteq> NegZero
           \<and> (if feq ?d (Fin 0) then v = Fin 0 else v = ?d)
           \<and> (\<not> isnan (credit row) \<and> \<not> isnan (debit row) \<longrightarrow>
                 v = Fin (rnd (val (debit row) - val (credit row))))"
  proof (cases "feq ?d (Fin 0)")
    case True
    then have "calculate_net_amount labels row ''Debit Based'' = Inr (Some (Fin 0))"
      by (simp add: calculate_net_amount_def s)
    moreover have "\<not> isnan (credit row) \<and> \<not> isnan (debit row) \<longrightarrow>
        Fin 0 = Fin (rnd (val (debit row) - val (credit row)))"
      using True by (auto simp: feq_zero fsub_cases split: if_splits)
    ultimately show ?thesis using True by simp
  next
    case False
    then have "calculate_net_amount labels row ''Debit Based'' = Inr (Some ?d)"
      by (simp add: calculate_net_amount_def s)
    moreover have "?d \<noteq> NegZero" using False by (simp add: feq_zero)
    moreover have "\<not> isnan (credit row) \<and> \<not> isnan (debit row) \<longrightarrow>
        ?d = Fin (rnd (val (debit row) - val (credit row)))"
      using False by (auto simp: feq_zero fsub_cases split: if_splits)
    ultimately show ?thesis using False by simp
  qed
  have caller: "length og = length df \<and>
             (\<forall>i < length df.
                calculate_net_amount labels (df ! i) ''Credit Based''
                  = Inr (Some (net_amount (og ! i))))"
    if a: "apply_net_amount labels df = Inr og" for df og
  proof -
    from apply_net_amount_Inr [OF a] have l: "length og = length df"
      and r: "\<forall>i < length df. \<exists>v. calculate_net_amount labels (df ! i) ''Credit Based'' = Inr v
              \<and> og ! i = \<lparr>debit = debit (df ! i), credit = credit (df ! i),
                           index = index (df ! i),
                           net_amount = (case v of Some a \<Rightarrow> a | None \<Rightarrow> NaN)\<rparr>"
      by simp_all
    have "calculate_net_amount labels (df ! i) ''Credit Based'' = Inr (Some (net_amount (og ! i)))"
      if i: "i < length df" for i
    proof -
      from r i obtain v where v: "calculate_net_amount labels (df ! i) ''Credit Based'' = Inr v"
        and o: "og ! i = \<lparr>debit = debit (df ! i), credit = credit (df ! i),
                           index = index (df ! i),
                           net_amount = (case v of Some a \<Rightarrow> a | None \<Rightarrow> NaN)\<rparr>"
        by blast
      from some [of "df ! i"] v obtain w where "v = Some w" by auto
      with v o show ?thesis by simp
    qed
    with l show ?thesis by blast
  qed
  from first some [of row] caller show ?thesis by blast
qed

theorem debit_based_net_amount_witness:
  "Credit \<in> set [Debit, Credit] \<and> Debit \<in> set [Debit, Credit]
   \<and> calculate_net_amount [Debit, Credit]
        \<lparr>debit = Fin 40, credit = Fin 10, index = \<lparr>year = 2024, month = 1, mday = 5\<rparr>\<rparr>
        ''Debit Based'' = Inr (Some (Fin 30))
   \<and> apply_net_amount [Debit, Credit]
        [\<lparr>debit = Fin 40, credit = Fin 10, index = \<lparr>year = 2024, month = 1, mday = 5\<rparr>\<rparr>]
        = Inr [\<lparr>debit = Fin 40, credit = Fin 10, index = \<lparr>year = 2024, month = 1, mday = 5\<rparr>,
                net_amount = Fin (- 30)\<rparr>]
   \<and> calculate_net_amount [Debit, Credit]
        \<lparr>debit = Fin 40, credit = Fin 10, index = \<lparr>year = 2024, month = 1, mday = 5\<rparr>\<rparr>
        ''Credit Based'' = Inr (Some (Fin (- 30)))"
proof -
  let ?r = "\<lparr>debit = Fin 40, credit = Fin 10, index = \<lparr>year = 2024, month = 1, mday = 5\<rparr>\<rparr>"
  let ?o = "\<lparr>debit = Fin 40, credit = Fin 10, index = \<lparr>year = 2024, month = 1, mday = 5\<rparr>,
                net_amount = Fin (- 30)\<rparr>"
  have h1: "Credit \<in> set [Debit, Credit]" and h2: "Debit \<in> set [Debit, Credit]" by simp_all
  note t = debit_based_net_amount [OF h1 h2, of ?r]
  from t have a: "calculate_net_amount [Debit, Credit] ?r ''Debit Based'' = Inr (Some (Fin 30))"
    by (auto simp: isnan_def)
  have b: "apply_net_amount [Debit, Credit] [?r] = Inr [?o]"
    by (simp add: apply_net_amount_def calculate_net_amount_def sub_items_def getitem_def
        fsub_def feq_def isnan_def)
  from t b have "\<forall>i < length [?r].
      calculate_net_amount [Debit, Credit] ([?r] ! i) ''Credit Based''
        = Inr (Some (net_amount ([?o] ! i)))"
    by blast
  then have c: "calculate_net_amount [Debit, Credit] ?r ''Credit Based'' = Inr (Some (Fin (- 30)))"
    by simp
  show ?thesis using h1 h2 a b c by blast
qed

section \<open>The weekday table\<close>

lemma dayofweek_less: "dayofweek t < 7"
  by (simp add: dayofweek_def nat_less_iff)

lemma distinct_day_names: "distinct day_names"
  by (simp add: day_names_def)

lemma length_day_names: "length day_names = 7"
  by (simp add: day_names_def)

lemma strftime_A_eq_iff:
  "i < 7 \<Longrightarrow> strftime_A t = day_names ! i \<longleftrightarrow> dayofweek t = i"
  unfolding strftime_A_def
  using dayofweek_less [of t] distinct_day_names length_day_names
  by (simp add: nth_eq_iff_index_eq)

lemma weekend_names:
  "strftime_A t = ''Saturday'' \<longleftrightarrow> dayofweek t = 5"
  "strftime_A t = ''Sunday'' \<longleftrightarrow> dayofweek t = 6"
  using strftime_A_eq_iff [of 5 t] strftime_A_eq_iff [of 6 t]
  by (simp_all add: day_names_def)

text \<open>
  C7. A record whose date falls on a Saturday or a Sunday contributes nothing to the
  weekday aggregate: the table computed from a frame with such a record is the table
  computed from the frame without it.
\<close>

theorem weekend_rows_do_not_contribute:
  assumes "strftime_A (index r) = ''Saturday'' \<or> strftime_A (index r) = ''Sunday''"
  shows "compute_weekday_sum (xs @ r # ys) = compute_weekday_sum (xs @ ys)"
proof -
  from assms have "\<not> dayofweek (index r) < 5"
    by (auto simp: weekend_names)
  then have "filter (\<lambda>r. dayofweek (index r) < 5) (xs @ r # ys)
           = filter (\<lambda>r. dayofweek (index r) < 5) (xs @ ys)"
    by simp
  then show ?thesis
    by (simp only: compute_weekday_sum_def)
qed

lemma fadd_Fin_not_nan: "x \<noteq> NaN \<Longrightarrow> fadd (Fin a) x = Fin (rnd (a + val x))"
  by (cases x) simp_all

lemma find_map_index:
  assumes "\<And>k. index (F k) = k"
  shows "find (\<lambda>r. index r = l) (map F ks) = (if l \<in> set ks then Some (F l) else None)"
  using assms by (induction ks) auto

lemma find_groupby_sum:
  "find (\<lambda>r. index r = l) (groupby_sum keyed) =
     (if l \<in> fst ` set keyed
      then Some (agg group_sum l (map snd (filter (\<lambda>(n, r). n = l) keyed)))
      else None)"
  unfolding groupby_sum_def
  by (subst find_map_index) (simp_all add: agg_def)

lemma zip_map_self: "zip (map f xs) xs = map (\<lambda>x. (f x, x)) xs"
  by (induction xs) simp_all

lemma filter_keyed:
  "map snd (filter (\<lambda>(n, r). n = l) (map (\<lambda>x. (f x, x)) xs)) = filter (\<lambda>x. f x = l) xs"
  by (induction xs) simp_all

lemma key_mem:
  "l \<in> fst ` set (map (\<lambda>x. (f x, x)) xs) \<longleftrightarrow> filter (\<lambda>x. f x = l) xs \<noteq> []"
  by (induction xs) auto

lemma weekday_group:
  fixes df :: "timestamp derived list"
  assumes "i < 5"
  shows "filter (\<lambda>x. strftime_A (index x) = day_names ! i)
           (filter (\<lambda>r. dayofweek (index r) < 5) df) = filter (\<lambda>r. dayofweek (index r) = i) df"
proof -
  have "strftime_A (index x) = day_names ! i \<longleftrightarrow> dayofweek (index x) = i" for x :: "timestamp derived"
    using assms by (simp add: strftime_A_eq_iff)
  then show ?thesis using assms by (auto intro!: filter_cong)
qed

lemma weekday_row:
  fixes df :: "timestamp derived list"
  assumes "i < 5"
  shows "(case find (\<lambda>r. index r = day_names ! i)
             (groupby_sum (zip (map (\<lambda>r. strftime_A (index r))
                 (filter (\<lambda>r. dayofweek (index r) < 5) df))
                 (filter (\<lambda>r. dayofweek (index r) < 5) df))) of
            Some r \<Rightarrow> r
          | None \<Rightarrow> \<lparr>debit = NaN, credit = NaN, index = day_names ! i, net_amount = NaN\<rparr>)
         = (if filter (\<lambda>r. dayofweek (index r) = i) df = []
            then \<lparr>debit = NaN, credit = NaN, index = day_names ! i, net_amount = NaN\<rparr>
            else agg group_sum (day_names ! i) (filter (\<lambda>r. dayofweek (index r) = i) df))"
proof -
  let ?df = "filter (\<lambda>r. dayofweek (index r) < 5) df"
  let ?g = "filter (\<lambda>r. dayofweek (index r) = i) df"
  have mem: "day_names ! i \<in> fst ` set (map (\<lambda>x. (strftime_A (index x), x)) ?df) \<longleftrightarrow> ?g \<noteq> []"
    unfolding key_mem by (simp only: weekday_group [OF assms])
  show ?thesis
    unfolding zip_map_self find_groupby_sum filter_keyed weekday_group [OF assms] mem
    by simp
qed

lemma re_order_nth:
  "[''Monday'', ''Tuesday'', ''Wednesday'', ''Thursday'', ''Friday''] = map (\<lambda>i. day_names ! i) [0 ..< 5]"
  by (simp add: day_names_def upt_rec)

lemma compute_weekday_sum_nth:
  fixes df :: "timestamp derived list"
  assumes "i < 5"
  shows "compute_weekday_sum df ! i =
     (let g = filter (\<lambda>r. dayofweek (index r) = i) df
      in if g = []
         then \<lparr>debit = NaN, credit = NaN, index = day_names ! i, net_amount = NaN,
               day = day_names ! i\<rparr>
         else \<lparr>debit = group_sum (map debit g), credit = group_sum (map credit g),
               index = day_names ! i, net_amount = group_sum (map net_amount g),
               day = day_names ! i\<rparr>)"
proof -
  let ?df = "filter (\<lambda>r. dayofweek (index r) < 5) df"
  let ?tbl = "groupby_sum (zip (map (\<lambda>r. strftime_A (index r)) ?df) ?df)"
  let ?row = "\<lambda>l. case find (\<lambda>r. index r = l) ?tbl of
                 Some r \<Rightarrow> r
               | None \<Rightarrow> \<lparr>debit = NaN, credit = NaN, index = l, net_amount = NaN\<rparr>"
  let ?ext = "\<lambda>r. \<lparr>debit = debit r, credit = credit r, index = index r,
                     net_amount = net_amount r, day = index r\<rparr>"
  define F where "F = (\<lambda>i. ?ext (?row (day_names ! i)))"
  have "compute_weekday_sum df = map F [0 ..< 5]"
    unfolding compute_weekday_sum_def Let_def reindex_def re_order_nth F_def
    by (simp only: map_map comp_def)
  then have "compute_weekday_sum df ! i = F i"
    using assms by simp
  then have "compute_weekday_sum df ! i = ?ext (?row (day_names ! i))"
    by (simp only: F_def)
  also have "?row (day_names ! i) =
      (if filter (\<lambda>r. dayofweek (index r) = i) df = []
            then \<lparr>debit = NaN, credit = NaN, index = day_names ! i, net_amount = NaN\<rparr>
            else agg group_sum (day_names ! i) (filter (\<lambda>r. dayofweek (index r) = i) df))"
    by (rule weekday_row [OF assms])
  finally show ?thesis
    by (simp add: Let_def agg_def)
qed

text \<open>
  C3. The weekday table has exactly five rows, for Monday, Tuesday, Wednesday, Thursday
  and Friday in this order, whatever weekdays occur in the frame. The row of a weekday
  without a record holds missing values in every column, not zeros.
\<close>

theorem weekday_table_has_five_rows:
  fixes df :: "timestamp derived list"
  shows "length (compute_weekday_sum df) = 5
       \<and> map day (compute_weekday_sum df)
           = [''Monday'', ''Tuesday'', ''Wednesday'', ''Thursday'', ''Friday'']
       \<and> (\<forall>i < 5. filter (\<lambda>r. dayofweek (index r) = i) df = [] \<longrightarrow>
             debit (compute_weekday_sum df ! i) = NaN
             \<and> credit (compute_weekday_sum df ! i) = NaN
             \<and> net_amount (compute_weekday_sum df ! i) = NaN)"
proof -
  have l: "length (compute_weekday_sum df) = 5"
    by (simp add: compute_weekday_sum_def reindex_def Let_def)
  have dn: "day (compute_weekday_sum df ! i) = day_names ! i" if "i < 5" for i
    by (simp add: compute_weekday_sum_nth [OF that] Let_def)
  have "map day (compute_weekday_sum df) = map (\<lambda>i. day_names ! i) [0 ..< 5]"
    by (rule nth_equalityI) (simp_all add: l dn)
  then have d: "map day (compute_weekday_sum df)
           = [''Monday'', ''Tuesday'', ''Wednesday'', ''Thursday'', ''Friday'']"
    by (simp only: re_order_nth)
  have r: "debit (compute_weekday_sum df ! i) = NaN
             \<and> credit (compute_weekday_sum df ! i) = NaN
             \<and> net_amount (compute_weekday_sum df ! i) = NaN"
    if "i < 5" and "filter (\<lambda>r. dayofweek (index r) = i) df = []" for i
    using that(2) by (simp add: compute_weekday_sum_nth [OF that(1)] Let_def)
  from l d r show ?thesis by blast
qed

theorem weekday_table_has_five_rows_witness:
  "length (compute_weekday_sum
     [\<lparr>debit = Fin 10, credit = Fin 40, index = \<lparr>year = 2024, month = 3, mday = 8\<rparr>,
       net_amount = Fin 30\<rparr>,
      \<lparr>debit = Fin 5, credit = Fin 5, index = \<lparr>year = 2024, month = 3, mday = 9\<rparr>,
       net_amount = Fin 0\<rparr>,
      \<lparr>debit = Fin 0, credit = Fin 20, index = \<lparr>year = 2024, month = 3, mday = 14\<rparr>,
       net_amount = Fin 20\<rparr>]) = 5
   \<and> map day (compute_weekday_sum
     [\<lparr>debit = Fin 10, credit = Fin 40, index = \<lparr>year = 2024, month = 3, mday = 8\<rparr>,
       net_amount = Fin 30\<rparr>,
      \<lparr>debit = Fin 5, credit = Fin 5, index = \<lparr>year = 2024, month = 3, mday = 9\<rparr>,
       net_amount = Fin 0\<rparr>,
      \<lparr>debit = Fin 0, credit = Fin 20, index = \<lparr>year = 2024, month = 3, mday = 14\<rparr>,
       net_amount = Fin 20\<rparr>])
     = [''Monday'', ''Tuesday'', ''Wednesday'', ''Thursday'', ''Friday'']
   \<and> filter (\<lambda>r. dayofweek (index r) = 0)
     [\<lparr>debit = Fin 10, credit = Fin 40, index = \<lparr>year = 2024, month = 3, mday = 8\<rparr>,
       net_amount = Fin 30\<rparr>,
      \<lparr>debit = Fin 5, credit = Fin 5, index = \<lparr>year = 2024, month = 3, mday = 9\<rparr>,
       net_amount = Fin 0\<rparr>,
      \<lparr>debit = Fin 0, credit = Fin 20, index = \<lparr>year = 2024, month = 3, mday = 14\<rparr>,
       net_amount = Fin 20\<rparr>] = []
   \<and> debit (compute_weekday_sum
     [\<lparr>debit = Fin 10, credit = Fin 40, index = \<lparr>year = 2024, month = 3, mday = 8\<rparr>,
       net_amount = Fin 30\<rparr>,
      \<lparr>debit = Fin 5, credit = Fin 5, index = \<lparr>year = 2024, month = 3, mday = 9\<rparr>,
       net_amount = Fin 0\<rparr>,
      \<lparr>debit = Fin 0, credit = Fin 20, index = \<lparr>year = 2024, month = 3, mday = 14\<rparr>,
       net_amount = Fin 20\<rparr>] ! 0) = NaN
   \<and> credit (compute_weekday_sum
     [\<lparr>debit = Fin 10, credit = Fin 40, index = \<lparr>year = 2024, month = 3, mday = 8\<rparr>,
       net_amount = Fin 30\<rparr>,
      \<lparr>debit = Fin 5, credit = Fin 5, index = \<lparr>year = 2024, month = 3, mday = 9\<rparr>,
       net_amount = Fin 0\<rparr>,
      \<lparr>debit = Fin 0, credit = Fin 20, index = \<lparr>year = 2024, month = 3, mday = 14\<rparr>,
       net_amount = Fin 20\<rparr>] ! 0) = NaN
   \<and> net_amount (compute_weekday_sum
     [\<lparr>debit = Fin 10, credit = Fin 40, index = \<lparr>year = 2024, month = 3, mday = 8\<rparr>,
       net_amount = Fin 30\<rparr>,
      \<lparr>debit = Fin 5, credit = Fin 5, index = \<lparr>year = 2024, month = 3, mday = 9\<rparr>,
       net_amount = Fin 0\<rparr>,
      \<lparr>debit = Fin 0, credit = Fin 20, index = \<lparr>year = 2024, month = 3, mday = 14\<rparr>,
       net_amount = Fin 20\<rparr>] ! 0) = NaN"
proof -
  let ?df = "[\<lparr>debit = Fin 10, credit = Fin 40, index = \<lparr>year = 2024, month = 3, mday = 8\<rparr>,
       net_amount = Fin 30\<rparr>,
      \<lparr>debit = Fin 5, credit = Fin 5, index = \<lparr>year = 2024, month = 3, mday = 9\<rparr>,
       net_amount = Fin 0\<rparr>,
      \<lparr>debit = Fin 0, credit = Fin 20, index = \<lparr>year = 2024, month = 3, mday = 14\<rparr>,
       net_amount = Fin 20\<rparr>]"
  let ?w = "compute_weekday_sum ?df"
  note t = weekday_table_has_five_rows [of ?df]
  have dw: "dayofweek \<lparr>year = 2024, month = 3, mday = 8\<rparr> = 4"
    "dayofweek \<lparr>year = 2024, month = 3, mday = 9\<rparr> = 5"
    "dayofweek \<lparr>year = 2024, month = 3, mday = 14\<rparr> = 3"
    by (simp_all add: dayofweek_def days_from_civil_def)
  have g: "filter (\<lambda>r. dayofweek (index r) = 0) ?df = []"
    by (simp add: dw)
  from t have l: "length ?w = 5" by blast
  from t have d: "map day ?w = [''Monday'', ''Tuesday'', ''Wednesday'', ''Thursday'', ''Friday'']"
    by blast
  from t have a: "\<forall>i < 5. filter (\<lambda>r. dayofweek (index r) = i) ?df = [] \<longrightarrow>
             debit (?w ! i) = NaN \<and> credit (?w ! i) = NaN \<and> net_amount (?w ! i) = NaN"
    by blast
  from a [rule_format, of 0] g
  have n: "debit (?w ! 0) = NaN \<and> credit (?w ! 0) = NaN \<and> net_amount (?w ! 0) = NaN"
    by simp
  from l d g n show ?thesis by blast
qed

theorem weekend_rows_do_not_contribute_witness:
  "strftime_A \<lparr>year = 2024, month = 3, mday = 9\<rparr> = ''Saturday''
   \<and> compute_weekday_sum
     ([\<lparr>debit = Fin 10, credit = Fin 40, index = \<lparr>year = 2024, month = 3, mday = 8\<rparr>,
        net_amount = Fin 30\<rparr>] @
      \<lparr>debit = Fin 5, credit = Fin 7, index = \<lparr>year = 2024, month = 3, mday = 9\<rparr>,
        net_amount = Fin 2\<rparr> #
      [\<lparr>debit = Fin 0, credit = Fin 20, index = \<lparr>year = 2024, month = 3, mday = 14\<rparr>,
        net_amount = Fin 20\<rparr>])
   = compute_weekday_sum
     ([\<lparr>debit = Fin 10, credit = Fin 40, index = \<lparr>year = 2024, month = 3, mday = 8\<rparr>,
        net_amount = Fin 30\<rparr>] @
      [\<lparr>debit = Fin 0, credit = Fin 20, index = \<lparr>year = 2024, month = 3, mday = 14\<rparr>,
        net_amount = Fin 20\<rparr>])"
proof -
  let ?r = "\<lparr>debit = Fin 5, credit = Fin 7, index = \<lparr>year = 2024, month = 3, mday = 9\<rparr>,
        net_amount = Fin 2\<rparr>"
  have h: "strftime_A \<lparr>year = 2024, month = 3, mday = 9\<rparr> = ''Saturday''"
    by (simp add: strftime_A_def dayofweek_def days_from_civil_def day_names_def)
  then have "strftime_A (index ?r) = ''Saturday'' \<or> strftime_A (index ?r) = ''Sunday''"
    by simp
  from weekend_rows_do_not_contribute [OF this] h show ?thesis by blast
qed

section \<open>Month labels\<close>

lemma show_nat_not_Nil: "show_nat n \<noteq> []"
  by (subst show_nat.simps) simp

lemma digit_inj:
  assumes "digit_chars ! n = digit_chars ! m" and "n < 10" and "m < 10"
  shows "n = m"
proof -
  have "distinct digit_chars" and "length digit_chars = 10"
    by (simp_all add: digit_chars_def)
  with assms show ?thesis by (simp add: nth_eq_iff_index_eq)
qed

lemma show_nat_small: "n < 10 \<Longrightarrow> show_nat n = [digit_chars ! n]"
  by (subst show_nat.simps) (simp only: if_True)

lemma show_nat_large:
  "\<not> n < 10 \<Longrightarrow> show_nat n = show_nat (n div 10) @ [digit_chars ! (n mod 10)]"
  by (subst show_nat.simps) (simp only: if_False)

lemma snoc_eq: "xs @ [a] = ys @ [b] \<Longrightarrow> xs = ys \<and> a = b"
  by simp

lemma single_snoc: "[a] = ys @ [b] \<Longrightarrow> ys = []"
  by (cases ys) simp_all

lemma single_eq: "[a] = [b] \<Longrightarrow> a = b"
  by simp

lemma div_mod_10_eq:
  assumes "n div 10 = m div 10" and "n mod 10 = m mod 10"
  shows "n = (m :: nat)"
proof -
  have "n = n div 10 * 10 + n mod 10" by (rule div_mult_mod_eq [symmetric])
  also have "\<dots> = m div 10 * 10 + m mod 10" by (simp only: assms)
  also have "\<dots> = m" by (rule div_mult_mod_eq)
  finally show ?thesis .
qed

lemma show_nat_inj: "show_nat n = show_nat m \<Longrightarrow> n = m"
proof (induction n arbitrary: m rule: show_nat.induct)
  case (1 n)
  show ?case
  proof (cases "n < 10")
    case n: True
    show ?thesis
    proof (cases "m < 10")
      case True
      from "1.prems" have "[digit_chars ! n] = [digit_chars ! m]"
        by (simp only: show_nat_small [OF n] show_nat_small [OF True])
      then have "digit_chars ! n = digit_chars ! m"
        by (rule single_eq)
      then show ?thesis using n True by (rule digit_inj)
    next
      case False
      from "1.prems" have "[digit_chars ! n] = show_nat (m div 10) @ [digit_chars ! (m mod 10)]"
        by (simp only: show_nat_small [OF n] show_nat_large [OF False])
      then have "show_nat (m div 10) = []" by (rule single_snoc)
      with show_nat_not_Nil show ?thesis by blast
    qed
  next
    case n: False
    show ?thesis
    proof (cases "m < 10")
      case True
      from "1.prems" have "[digit_chars ! m] = show_nat (n div 10) @ [digit_chars ! (n mod 10)]"
        by (simp only: show_nat_small [OF True] show_nat_large [OF n])
      then have "show_nat (n div 10) = []" by (rule single_snoc)
      with show_nat_not_Nil show ?thesis by blast
    next
      case False
      from "1.prems" have "show_nat (n div 10) @ [digit_chars ! (n mod 10)]
          = show_nat (m div 10) @ [digit_chars ! (m mod 10)]"
        by (simp only: show_nat_large [OF n] show_nat_large [OF False])
      from snoc_eq [OF this] have a: "show_nat (n div 10) = show_nat (m div 10)"
        and b: "digit_chars ! (n mod 10) = digit_chars ! (m mod 10)"
        by blast+
      from "1.IH" [OF n a] have d: "n div 10 = m div 10" .
      have "n mod 10 < 10" and "m mod 10 < 10" by simp_all
      with b have "n mod 10 = m mod 10" by (rule digit_inj)
      with d show ?thesis by (rule div_mod_10_eq)
    qed
  qed
qed

lemma month_names_no_space: "n \<in> set month_names \<Longrightarrow> CHR '' '' \<notin> set n"
  by (auto simp: month_names_def)

lemma distinct_month_names: "distinct month_names"
  by (simp add: month_names_def)

lemma length_month_names: "length month_names = 12"
  by (simp add: month_names_def)

lemma takeWhile_label:
  "CHR '' '' \<notin> set n \<Longrightarrow> takeWhile (\<lambda>c. c \<noteq> CHR '' '') (n @ '' '' @ s) = n"
  by (induction n) auto

lemma dropWhile_label:
  "CHR '' '' \<notin> set n \<Longrightarrow> dropWhile (\<lambda>c. c \<noteq> CHR '' '') (n @ '' '' @ s) = '' '' @ s"
  by (induction n) auto

lemma month_label_eq:
  "strftime_B_Y (month_end k) = month_names ! (k mod 12) @ '' '' @ show_nat (k div 12)"
  by (simp add: strftime_B_Y_def month_end_def)

lemma month_label_inj:
  assumes "strftime_B_Y (month_end a) = strftime_B_Y (month_end b)"
  shows "a = b"
proof -
  let ?na = "month_names ! (a mod 12)" and ?nb = "month_names ! (b mod 12)"
  have ma: "?na \<in> set month_names" and mb: "?nb \<in> set month_names"
    by (simp_all add: length_month_names)
  from assms have e: "?na @ '' '' @ show_nat (a div 12) = ?nb @ '' '' @ show_nat (b div 12)"
    by (simp only: month_label_eq)
  from arg_cong [OF e, of "takeWhile (\<lambda>c. c \<noteq> CHR '' '')"]
  have n: "?na = ?nb"
    by (simp only: takeWhile_label [OF month_names_no_space [OF ma]]
        takeWhile_label [OF month_names_no_space [OF mb]])
  from arg_cong [OF e, of "dropWhile (\<lambda>c. c \<noteq> CHR '' '')"]
  have "show_nat (a div 12) = show_nat (b div 12)"
    by (simp only: dropWhile_label [OF month_names_no_space [OF ma]]
        dropWhile_label [OF month_names_no_space [OF mb]]) simp
  then have d: "a div 12 = b div 12" by (rule show_nat_inj)
  from n have m: "a mod 12 = b mod 12"
    using distinct_month_names length_month_names
    by (simp add: nth_eq_iff_index_eq)
  have "a = a div 12 * 12 + a mod 12" by (rule div_mult_mod_eq [symmetric])
  also have "\<dots> = b div 12 * 12 + b mod 12" by (simp only: d m)
  also have "\<dots> = b" by (rule div_mult_mod_eq)
  finally show ?thesis .
qed

section \<open>The merged monthly table\<close>

lemma set_sort_key_month:
  "set (map (\<lambda>r. month_index (index r)) (sort_key f df))
     = set (map (\<lambda>r. month_index (index r)) df)"
  by simp

lemma resample_ME_bins:
  "resample_ME df = map (\<lambda>k. (month_end k, month_rows df k)) (month_bins df)"
proof (cases "df = []")
  case True
  then show ?thesis by (simp add: resample_ME_def month_bins_def)
next
  case False
  then show ?thesis
    unfolding resample_ME_def month_bins_def month_rows_def Let_def set_sort_key_month
    by (simp only: if_False)
qed

lemma distinct_month_bins: "distinct (month_bins df)"
  by (simp add: month_bins_def)

lemma with_month_name_monthly:
  "with_month_name (map (\<lambda>(e, g). agg f e g) (resample_ME df))
     = map (\<lambda>k. (strftime_B_Y (month_end k), agg f (month_end k) (month_rows df k)))
         (month_bins df)"
  by (simp add: with_month_name_def resample_ME_bins agg_def comp_def)

lemma filter_unique_key:
  "distinct (map L ks) \<Longrightarrow> k \<in> set ks \<Longrightarrow> filter (\<lambda>j. L j = L k) ks = [k]"
proof (induction ks)
  case Nil
  then show ?case by simp
next
  case (Cons a ks)
  show ?case
  proof (cases "a = k")
    case True
    with Cons.prems have "L k \<notin> L ` set ks" by simp
    then have "\<forall>j \<in> set ks. L j \<noteq> L k" by (metis imageI)
    then have "filter (\<lambda>j. L j = L k) ks = []" by (simp add: filter_empty_conv)
    with True show ?thesis by simp
  next
    case False
    with Cons.prems have k: "k \<in> set ks" and d: "distinct (map L ks)" by auto
    from Cons.prems k have "L a \<noteq> L k" by auto
    with Cons.IH [OF d k] show ?thesis by simp
  qed
qed

lemma merge_same_keys:
  assumes "distinct (map L ks)"
  shows "merge (map (\<lambda>k. (L k, f k)) ks) (map (\<lambda>k. (L k, g k)) ks)
       = map (\<lambda>k. (L k, (f k, g k))) ks"
proof -
  have row: "map (\<lambda>(k', b). (L k, (f k, b)))
               (filter (\<lambda>(k', b). k' = L k) (map (\<lambda>j. (L j, g j)) ks))
             = [(L k, (f k, g k))]" if "k \<in> set ks" for k
  proof -
    have "filter (\<lambda>(k', b). k' = L k) (map (\<lambda>j. (L j, g j)) ks)
        = map (\<lambda>j. (L j, g j)) (filter (\<lambda>j. L j = L k) ks)"
      by (simp add: filter_map comp_def)
    also have "\<dots> = [(L k, g k)]"
      by (simp add: filter_unique_key [OF assms that])
    finally show ?thesis by simp
  qed
  have "merge (map (\<lambda>k. (L k, f k)) ks) (map (\<lambda>k. (L k, g k)) ks)
      = concat (map (\<lambda>k. map (\<lambda>(k', b). (L k, (f k, b)))
               (filter (\<lambda>(k', b). k' = L k) (map (\<lambda>j. (L j, g j)) ks))) ks)"
    by (simp add: merge_def comp_def)
  also have "\<dots> = concat (map (\<lambda>k. [(L k, (f k, g k))]) ks)"
    using row by (intro arg_cong [where f = concat] map_cong) simp_all
  also have "\<dots> = map (\<lambda>k. (L k, (f k, g k))) ks"
    by (induction ks) simp_all
  finally show ?thesis .
qed

lemma distinct_month_labels:
  "distinct ks \<Longrightarrow> distinct (map (\<lambda>k. strftime_B_Y (month_end k)) ks)"
  by (simp add: distinct_map inj_on_def) (blast dest: month_label_inj)

lemma merged_df_bins:
  "merged_df df =
     map (\<lambda>k. \<lparr>debit = group_sum (map debit (month_rows df k)),
                credit = group_sum (map credit (month_rows df k)),
                month_name = strftime_B_Y (month_end k),
                sum_net_amount = group_sum (map net_amount (month_rows df k)),
                avg_net_amount = group_mean (map net_amount (month_rows df k)),
                median_net_amount = nanmedian (map net_amount (month_rows df k))\<rparr>)
       (month_bins df)"
proof -
  let ?L = "\<lambda>k. strftime_B_Y (month_end k)"
  let ?ks = "month_bins df"
  let ?A = "\<lambda>f k. agg f (month_end k) (month_rows df k)"
  have d: "distinct (map ?L ?ks)"
    by (rule distinct_month_labels) (rule distinct_month_bins)
  have m1: "merge (map (\<lambda>k. (?L k, ?A group_sum k)) ?ks)
              (map (\<lambda>k. (?L k, net_amount (?A group_mean k))) ?ks)
          = map (\<lambda>k. (?L k, (?A group_sum k, net_amount (?A group_mean k)))) ?ks"
    by (rule merge_same_keys [OF d])
  have m2: "merge (map (\<lambda>k. (?L k, (?A group_sum k, net_amount (?A group_mean k)))) ?ks)
              (map (\<lambda>k. (?L k, net_amount (?A nanmedian k))) ?ks)
          = map (\<lambda>k. (?L k, ((?A group_sum k, net_amount (?A group_mean k)),
                               net_amount (?A nanmedian k)))) ?ks"
    by (rule merge_same_keys [OF d])
  have p: "map (\<lambda>(n, r). (n, net_amount r)) (map (\<lambda>k. (?L k, ?A f k)) ?ks)
         = map (\<lambda>k. (?L k, net_amount (?A f k))) ?ks" for f
    by simp
  show ?thesis
    unfolding merged_df_def Let_def compute_monthly_sum_def compute_monthly_average_def
      compute_monthly_median_def with_month_name_monthly p m1 m2
    by (simp add: agg_def)
qed

lemma length_merged_df: "length (merged_df df) = length (month_bins df)"
  by (simp add: merged_df_bins)

lemma month_name_merged_df:
  "map month_name (merged_df df) = map (\<lambda>k. strftime_B_Y (month_end k)) (month_bins df)"
  by (simp add: merged_df_bins comp_def)

lemma month_end_month_index:
  assumes "1 \<le> month t" and "month t \<le> 12"
  shows "strftime_B_Y (month_end (month_index t)) = strftime_B_Y t"
proof -
  define j where "j = month t - 1"
  have j: "j < 12" using assms by (simp add: j_def)
  have i: "month_index t = year t * 12 + j"
    by (simp only: month_index_def j_def)
  from j have dm: "(year t * 12 + j) div 12 = year t" "(year t * 12 + j) mod 12 = j"
    by simp_all
  have "strftime_B_Y (month_end (month_index t))
      = month_names ! ((year t * 12 + j) mod 12) @ '' '' @ show_nat ((year t * 12 + j) div 12)"
    by (simp only: month_label_eq i)
  also have "\<dots> = month_names ! j @ '' '' @ show_nat (year t)"
    by (simp only: dm)
  also have "\<dots> = strftime_B_Y t"
    by (simp only: strftime_B_Y_def j_def)
  finally show ?thesis .
qed

text \<open>
  C4, as amended. The merged monthly table of a frame with rows has one row for every
  calendar month from the earliest to the latest month of the frame, the months in
  between that have no row included, in time order and each month once; no month of
  the frame is missing. So its row count is the length of that span of months; it is
  never less than the number of distinct months of the frame, and equal to it when these
  months are consecutive. \<open>month_index\<close> numbers the calendar months.
\<close>

theorem merged_rows_span_months:
  fixes df :: "timestamp derived list"
  shows "(df = [] \<longrightarrow> merged_df df = [])
       \<and> (df \<noteq> [] \<longrightarrow>
           (let K = (\<lambda>r. month_index (index r)) ` set df in
              map month_name (merged_df df)
                = map (\<lambda>k. strftime_B_Y (month_end k)) [Min K ..< Suc (Max K)]
            \<and> length (merged_df df) = Suc (Max K - Min K)
            \<and> distinct (map month_name (merged_df df))
            \<and> (\<forall>r \<in> set df. 1 \<le> month (index r) \<and> month (index r) \<le> 12 \<longrightarrow>
                  strftime_B_Y (index r) \<in> set (map month_name (merged_df df)))
            \<and> card K \<le> length (merged_df df)
            \<and> (K = {Min K .. Max K} \<longrightarrow> length (merged_df df) = card K)))"
proof -
  have e: "merged_df df = []" if "df = []"
    using that by (simp add: merged_df_bins month_bins_def)
  have n: "let K = (\<lambda>r. month_index (index r)) ` set df in
              map month_name (merged_df df)
                = map (\<lambda>k. strftime_B_Y (month_end k)) [Min K ..< Suc (Max K)]
            \<and> length (merged_df df) = Suc (Max K - Min K)
            \<and> distinct (map month_name (merged_df df))
            \<and> (\<forall>r \<in> set df. 1 \<le> month (index r) \<and> month (index r) \<le> 12 \<longrightarrow>
                  strftime_B_Y (index r) \<in> set (map month_name (merged_df df)))
            \<and> card K \<le> length (merged_df df)
            \<and> (K = {Min K .. Max K} \<longrightarrow> length (merged_df df) = card K)"
    if ne: "df \<noteq> []"
  proof -
    define K where "K = (\<lambda>r. month_index (index r)) ` set df"
    have fin: "finite K" and nonempty: "K \<noteq> {}"
      using ne by (simp_all add: K_def)
    have bins: "month_bins df = [Min K ..< Suc (Max K)]"
      using ne by (simp add: month_bins_def K_def)
    have le: "Min K \<le> Max K"
      using fin nonempty by simp
    have names: "map month_name (merged_df df)
                = map (\<lambda>k. strftime_B_Y (month_end k)) [Min K ..< Suc (Max K)]"
      by (simp only: month_name_merged_df bins)
    have len: "length (merged_df df) = Suc (Max K - Min K)"
      using le by (simp add: length_merged_df bins Suc_diff_le)
    have dist: "distinct (map month_name (merged_df df))"
      unfolding names by (rule distinct_month_labels) simp
    have sub: "K \<subseteq> {Min K .. Max K}"
      using fin by auto
    have present: "strftime_B_Y (index r) \<in> set (map month_name (merged_df df))"
      if r: "r \<in> set df" and v: "1 \<le> month (index r) \<and> month (index r) \<le> 12" for r
    proof -
      from r have "month_index (index r) \<in> K" by (simp add: K_def)
      with sub have "month_index (index r) \<in> set [Min K ..< Suc (Max K)]" by auto
      then have "strftime_B_Y (month_end (month_index (index r)))
          \<in> set (map month_name (merged_df df))"
        unfolding names by (simp only: set_map) (rule imageI)
      with v show ?thesis by (simp only: month_end_month_index)
    qed
    have "card K \<le> card {Min K .. Max K}"
      using sub by (intro card_mono) simp_all
    then have cardle: "card K \<le> length (merged_df df)"
      using le by (simp add: len)
    have eq: "length (merged_df df) = card K" if "K = {Min K .. Max K}"
    proof -
      from that have "card K = card {Min K .. Max K}" by simp
      then show ?thesis using le by (simp add: len)
    qed
    from names len dist present cardle eq show ?thesis
      unfolding Let_def K_def [symmetric] by blast
  qed
  from e n show ?thesis by blast
qed

lemma month_bins_gap:
  "month_bins
     [\<lparr>debit = Fin 10, credit = Fin 40, index = \<lparr>year = 2024, month = 1, mday = 5\<rparr>,
       net_amount = Fin 30\<rparr>,
      \<lparr>debit = Fin 0, credit = Fin 20, index = \<lparr>year = 2024, month = 3, mday = 8\<rparr>,
       net_amount = Fin 20\<rparr>] = [24288, 24289, 24290]"
  by (simp add: month_bins_def month_index_def upt_rec)

text \<open>
  The row count is not the number of distinct months in general: a frame with a row in
  January 2024 and a row in March 2024 has two distinct months, and its merged table has
  three rows, the one of February 2024 included.
\<close>

theorem merged_rows_count_counterexample:
  "length (merged_df
     [\<lparr>debit = Fin 10, credit = Fin 40, index = \<lparr>year = 2024, month = 1, mday = 5\<rparr>,
       net_amount = Fin 30\<rparr>,
      \<lparr>debit = Fin 0, credit = Fin 20, index = \<lparr>year = 2024, month = 3, mday = 8\<rparr>,
       net_amount = Fin 20\<rparr>])
   \<noteq> card ((\<lambda>r. (year (index r), month (index r))) ` set
     [\<lparr>debit = Fin 10, credit = Fin 40, index = \<lparr>year = 2024, month = 1, mday = 5\<rparr>,
       net_amount = Fin 30\<rparr>,
      \<lparr>debit = Fin 0, credit = Fin 20, index = \<lparr>year = 2024, month = 3, mday = 8\<rparr>,
       net_amount = Fin 20\<rparr>])"
proof -
  have "card ((\<lambda>r. (year (index r), month (index r))) ` set
     [\<lparr>debit = Fin 10, credit = Fin 40, index = \<lparr>year = 2024, month = 1, mday = 5\<rparr>,
       net_amount = Fin 30\<rparr>,
      \<lparr>debit = Fin 0, credit = Fin 20, index = \<lparr>year = 2024, month = 3, mday = 8\<rparr>,
       net_amount = Fin 20\<rparr>]) = 2"
    by simp
  then show ?thesis
    by (simp only: length_merged_df month_bins_gap) simp
qed

lemma labels_2024:
  "strftime_B_Y (month_end 24288) = ''January 2024''"
  "strftime_B_Y (month_end 24289) = ''February 2024''"
  "strftime_B_Y (month_end 24290) = ''March 2024''"
  by (simp_all add: month_label_eq month_names_def show_nat.simps digit_chars_def)

theorem merged_rows_span_months_witness:
  "[\<lparr>debit = Fin 10, credit = Fin 40, index = \<lparr>year = 2024, month = 1, mday = 5\<rparr>,
       net_amount = Fin 30\<rparr>,
      \<lparr>debit = Fin 0, credit = Fin 20, index = \<lparr>year = 2024, month = 3, mday = 8\<rparr>,
       net_amount = Fin 20\<rparr>] \<noteq> []
   \<and> map month_name (merged_df
     [\<lparr>debit = Fin 10, credit = Fin 40, index = \<lparr>year = 2024, month = 1, mday = 5\<rparr>,
       net_amount = Fin 30\<rparr>,
      \<lparr>debit = Fin 0, credit = Fin 20, index = \<lparr>year = 2024, month = 3, mday = 8\<rparr>,
       net_amount = Fin 20\<rparr>])
     = [''January 2024'', ''February 2024'', ''March 2024'']
   \<and> length (merged_df
     [\<lparr>debit = Fin 10, credit = Fin 40, index = \<lparr>year = 2024, month = 1, mday = 5\<rparr>,
       net_amount = Fin 30\<rparr>,
      \<lparr>debit = Fin 0, credit = Fin 20, index = \<lparr>year = 2024, month = 3, mday = 8\<rparr>,
       net_amount = Fin 20\<rparr>]) = 3"
proof -
  let ?df = "[\<lparr>debit = Fin 10, credit = Fin 40, index = \<lparr>year = 2024, month = 1, mday = 5\<rparr>,
       net_amount = Fin 30\<rparr>,
      \<lparr>debit = Fin 0, credit = Fin 20, index = \<lparr>year = 2024, month = 3, mday = 8\<rparr>,
       net_amount = Fin 20\<rparr>]"
  have ne: "?df \<noteq> []" by simp
  have K: "(\<lambda>r. month_index (index r)) ` set ?df = {24288, 24290}"
    by (simp add: month_index_def)
  have mm: "Min {24288, 24290 :: nat} = 24288" "Max {24288, 24290 :: nat} = 24290"
    by simp_all
  have u: "[24288 ..< Suc 24290] = [24288, 24289, 24290]"
    by (simp add: upt_rec)
  from merged_rows_span_months [of ?df] ne
  have "map month_name (merged_df ?df)
          = map (\<lambda>k. strftime_B_Y (month_end k)) [24288 ..< Suc 24290]
        \<and> length (merged_df ?df) = Suc (24290 - 24288)"
    unfolding Let_def K mm by blast
  then have "map month_name (merged_df ?df) = [''January 2024'', ''February 2024'', ''March 2024'']"
    and "length (merged_df ?df) = 3"
    by (simp_all only: u list.map labels_2024)
  with ne show ?thesis by blast
qed

section \<open>Conservation of the monthly sums\<close>

lemma sum_list_delta:
  fixes c :: "'a::comm_monoid_add"
  shows "distinct ks \<Longrightarrow> (\<Sum>k\<leftarrow>ks. if a = k then c else 0) = (if a \<in> set ks then c else 0)"
  by (induction ks) auto

lemma sum_list_groups:
  fixes f :: "'r \<Rightarrow> 'a::comm_monoid_add"
  assumes "distinct ks" and "\<And>r. r \<in> set rs \<Longrightarrow> key r \<in> set ks"
  shows "(\<Sum>k\<leftarrow>ks. \<Sum>r\<leftarrow>filter (\<lambda>r. key r = k) rs. f r) = (\<Sum>r\<leftarrow>rs. f r)"
  using assms(2)
proof (induction rs)
  case Nil
  then show ?case by simp
next
  case (Cons r rs)
  have "(\<Sum>k\<leftarrow>ks. \<Sum>x\<leftarrow>filter (\<lambda>x. key x = k) (r # rs). f x)
      = (\<Sum>k\<leftarrow>ks. (if key r = k then f r else 0) + (\<Sum>x\<leftarrow>filter (\<lambda>x. key x = k) rs. f x))"
    by (intro arg_cong [where f = sum_list] map_cong) auto
  also have "\<dots> = (\<Sum>k\<leftarrow>ks. if key r = k then f r else 0)
                 + (\<Sum>k\<leftarrow>ks. \<Sum>x\<leftarrow>filter (\<lambda>x. key x = k) rs. f x)"
    by (simp add: sum_list_addf)
  also have "(\<Sum>k\<leftarrow>ks. if key r = k then f r else 0) = f r"
    using assms(1) Cons.prems by (simp add: sum_list_delta)
  also have "(\<Sum>k\<leftarrow>ks. \<Sum>x\<leftarrow>filter (\<lambda>x. key x = k) rs. f x) = (\<Sum>x\<leftarrow>rs. f x)"
    using Cons by simp
  finally show ?case by simp
qed

lemma sum_list_insort_key:
  fixes f :: "'r \<Rightarrow> 'a::comm_monoid_add"
  shows "sum_list (map f (insort_key k x xs)) = f x + sum_list (map f xs)"
  by (induction xs) (simp_all add: add.left_commute)

lemma sum_list_sort_key:
  fixes f :: "'r \<Rightarrow> 'a::comm_monoid_add"
  shows "sum_list (map f (sort_key k xs)) = sum_list (map f xs)"
  by (induction xs) (simp_all add: sum_list_insort_key)

lemma month_index_in_bins:
  fixes df :: "timestamp derived list"
  assumes "r \<in> set df"
  shows "month_index (index r) \<in> set (month_bins df)"
proof -
  let ?K = "set (map (\<lambda>r. month_index (index r)) df)"
  have "month_index (index r) \<in> ?K" using assms by simp
  then have "Min ?K \<le> month_index (index r)" and "month_index (index r) \<le> Max ?K"
    by simp_all
  then have "Min ?K \<le> month_index (index r) \<and> month_index (index r) < Suc (Max ?K)"
    by (simp only: less_Suc_eq_le simp_thms)
  moreover from assms have "df \<noteq> []" by auto
  then have "month_bins df = [Min ?K ..< Suc (Max ?K)]"
    by (simp add: month_bins_def)
  ultimately show ?thesis
    by (simp only: set_upt atLeastLessThan_iff)
qed

lemma sum_month_rows:
  fixes f :: "timestamp derived \<Rightarrow> rat"
  shows "(\<Sum>k\<leftarrow>month_bins df. \<Sum>r\<leftarrow>month_rows df k. f r) = (\<Sum>r\<leftarrow>df. f r)"
proof -
  let ?s = "sort_key (\<lambda>r. days_from_civil (index r)) df"
  have "(\<Sum>k\<leftarrow>month_bins df. \<Sum>r\<leftarrow>month_rows df k. f r)
      = (\<Sum>k\<leftarrow>month_bins df. \<Sum>r\<leftarrow>filter (\<lambda>r. month_index (index r) = k) ?s. f r)"
    by (simp only: month_rows_def)
  also have "\<dots> = (\<Sum>r\<leftarrow>?s. f r)"
    by (rule sum_list_groups) (simp_all add: distinct_month_bins month_index_in_bins)
  also have "\<dots> = (\<Sum>r\<leftarrow>df. f r)"
    by (rule sum_list_sort_key)
  finally show ?thesis .
qed

lemma sum_list_Ints:
  fixes f :: "'r \<Rightarrow> rat"
  shows "(\<And>x. x \<in> set xs \<Longrightarrow> f x \<in> \<int>) \<Longrightarrow> (\<Sum>x\<leftarrow>xs. f x) \<in> \<int>"
  by (induction xs) simp_all

lemma sum_list_filter_le:
  fixes f :: "'r \<Rightarrow> rat"
  assumes "\<And>x. 0 \<le> f x"
  shows "(\<Sum>x\<leftarrow>filter P xs. f x) \<le> (\<Sum>x\<leftarrow>xs. f x)"
proof (induction xs)
  case Nil
  then show ?case by simp
next
  case (Cons x xs)
  with assms [of x] show ?case by auto
qed

lemma foldl_fadd_exact:
  assumes "NaN \<notin> set xs" and "\<And>x. x \<in> set xs \<Longrightarrow> val x \<in> \<int>" and "a \<in> \<int>"
    and "\<bar>a\<bar> + (\<Sum>x\<leftarrow>xs. \<bar>val x\<bar>) \<le> 2 ^ 53"
  shows "foldl fadd (Fin a) xs = Fin (a + (\<Sum>x\<leftarrow>xs. val x))"
  using assms
proof (induction xs arbitrary: a)
  case Nil
  then show ?case by simp
next
  case (Cons x xs)
  have rest: "0 \<le> (\<Sum>y\<leftarrow>xs. \<bar>val y\<bar>)" by (rule sum_list_nonneg) auto
  from Cons.prems have x: "x \<noteq> NaN" and vx: "val x \<in> \<int>" by auto
  have i: "a + val x \<in> \<int>" using Cons.prems(3) vx by simp
  have "\<bar>a + val x\<bar> \<le> \<bar>a\<bar> + \<bar>val x\<bar>" by (rule abs_triangle_ineq)
  with Cons.prems(4) have b: "\<bar>a + val x\<bar> + (\<Sum>y\<leftarrow>xs. \<bar>val y\<bar>) \<le> 2 ^ 53" by simp
  with rest have "\<bar>a + val x\<bar> \<le> 2 ^ 53" by linarith
  with i have "rnd (a + val x) = a + val x" by (rule rnd_int)
  with x have step: "fadd (Fin a) x = Fin (a + val x)" by (simp add: fadd_Fin_not_nan)
  have "foldl fadd (Fin (a + val x)) xs = Fin (a + val x + (\<Sum>y\<leftarrow>xs. val y))"
    using Cons.prems(1,2) i b by (intro Cons.IH) auto
  with step show ?case by (simp add: add.assoc)
qed

lemma nansum_exact:
  assumes "\<And>x. x \<in> set xs \<Longrightarrow> val x \<in> \<int>" and "(\<Sum>x\<leftarrow>xs. \<bar>val x\<bar>) \<le> 2 ^ 53"
  shows "nansum xs = Fin (\<Sum>x\<leftarrow>xs. val x)"
proof -
  have n: "NaN \<notin> set (notna xs)" by (simp add: notna_def isnan_def)
  have v: "(\<Sum>x\<leftarrow>notna xs. val x) = (\<Sum>x\<leftarrow>xs. val x)"
    by (induction xs) (simp_all add: notna_def isnan_def)
  have "(\<Sum>x\<leftarrow>notna xs. \<bar>val x\<bar>) \<le> (\<Sum>x\<leftarrow>xs. \<bar>val x\<bar>)"
    unfolding notna_def by (rule sum_list_filter_le) simp
  with assms(2) have b: "\<bar>0\<bar> + (\<Sum>x\<leftarrow>notna xs. \<bar>val x\<bar>) \<le> 2 ^ 53" by simp
  have "foldl fadd (Fin 0) (notna xs) = Fin (0 + (\<Sum>x\<leftarrow>notna xs. val x))"
    using n b assms(1) by (intro foldl_fadd_exact) (auto simp: notna_def)
  then show ?thesis by (simp add: nansum_def v)
qed

lemma fneg_val: "fneg x \<noteq> NaN \<longleftrightarrow> x \<noteq> NaN" "val (fneg x) = - val x"
  by (cases x; simp)+

lemma fadd_val:
  assumes "x \<noteq> NaN" and "y \<noteq> NaN"
  shows "fadd x y \<noteq> NaN" and "val (fadd x y) = rnd (val x + val y)"
  using assms by (cases x; cases y; simp)+

lemma fsub_val:
  assumes "x \<noteq> NaN" and "y \<noteq> NaN"
  shows "fsub x y \<noteq> NaN" and "val (fsub x y) = rnd (val x - val y)"
  using assms fadd_val [of x "fneg y"] by (simp_all add: fsub_def fneg_val)

lemma kahan_step_exact:
  assumes "x \<noteq> NaN" and "val x \<in> \<int>" and "a \<in> \<int>" and "\<bar>a\<bar> + \<bar>val x\<bar> \<le> 2 ^ 53"
    and "c \<noteq> NaN" and "val c = 0"
  shows "\<exists>c'. kahan_step (Fin a, c) x = (Fin (a + val x), c') \<and> c' \<noteq> NaN \<and> val c' = 0"
proof -
  let ?y = "fsub x c"
  let ?t = "fadd (Fin a) ?y"
  let ?d = "fsub ?t (Fin a)"
  let ?c = "fsub ?d ?y"
  have bx: "\<bar>val x\<bar> \<le> 2 ^ 53" using assms(4) by linarith
  have rx: "rnd (val x) = val x" using assms(2) bx by (rule rnd_int)
  have y: "?y \<noteq> NaN" "val ?y = val x"
    using fsub_val [OF assms(1,5)] assms(6) rx by simp_all
  have "\<bar>a + val x\<bar> \<le> \<bar>a\<bar> + \<bar>val x\<bar>" by (rule abs_triangle_ineq)
  with assms(4) have "\<bar>a + val x\<bar> \<le> 2 ^ 53" by linarith
  moreover have "a + val x \<in> \<int>" using assms(2,3) by simp
  ultimately have "rnd (a + val x) = a + val x" by (intro rnd_int)
  with y have t: "?t = Fin (a + val x)" by (simp add: fadd_Fin_not_nan)
  have d: "?d \<noteq> NaN" "val ?d = val x"
    using fsub_val [of ?t "Fin a"] rx by (simp_all add: t)
  have c: "?c \<noteq> NaN" "val ?c = 0"
    using fsub_val [OF d(1) y(1)] d(2) y(2) by simp_all
  have "kahan_step (Fin a, c) x = (?t, ?c)"
    using c(1) by (simp add: Let_def isnan_def)
  with t c show ?thesis by simp
qed

lemma foldl_kahan_exact:
  assumes "NaN \<notin> set xs" and "\<And>x. x \<in> set xs \<Longrightarrow> val x \<in> \<int>" and "a \<in> \<int>"
    and "\<bar>a\<bar> + (\<Sum>x\<leftarrow>xs. \<bar>val x\<bar>) \<le> 2 ^ 53" and "c \<noteq> NaN" and "val c = 0"
  shows "fst (foldl kahan_step (Fin a, c) xs) = Fin (a + (\<Sum>x\<leftarrow>xs. val x))"
  using assms
proof (induction xs arbitrary: a c)
  case Nil
  then show ?case by simp
next
  case (Cons x xs)
  have rest: "0 \<le> (\<Sum>y\<leftarrow>xs. \<bar>val y\<bar>)" by (rule sum_list_nonneg) auto
  from Cons.prems have x: "x \<noteq> NaN" and vx: "val x \<in> \<int>" by auto
  from Cons.prems(4) rest have b1: "\<bar>a\<bar> + \<bar>val x\<bar> \<le> 2 ^ 53" by simp
  from kahan_step_exact [OF x vx Cons.prems(3) b1 Cons.prems(5,6)]
  obtain c' where step: "kahan_step (Fin a, c) x = (Fin (a + val x), c')"
    and c': "c' \<noteq> NaN" "val c' = 0" by blast
  have i: "a + val x \<in> \<int>" using Cons.prems(3) vx by simp
  have "\<bar>a + val x\<bar> \<le> \<bar>a\<bar> + \<bar>val x\<bar>" by (rule abs_triangle_ineq)
  with Cons.prems(4) have b: "\<bar>a + val x\<bar> + (\<Sum>y\<leftarrow>xs. \<bar>val y\<bar>) \<le> 2 ^ 53" by simp
  have "fst (foldl kahan_step (Fin (a + val x), c') xs)
      = Fin (a + val x + (\<Sum>y\<leftarrow>xs. val y))"
    using Cons.prems(1,2) i b c' by (intro Cons.IH) auto
  with step show ?case by (simp add: add.assoc)
qed

lemma group_sum_exact:
  assumes "\<And>x. x \<in> set xs \<Longrightarrow> val x \<in> \<int>" and "(\<Sum>x\<leftarrow>xs. \<bar>val x\<bar>) \<le> 2 ^ 53"
  shows "group_sum xs = Fin (\<Sum>x\<leftarrow>xs. val x)"
proof -
  have n: "NaN \<notin> set (notna xs)" by (simp add: notna_def isnan_def)
  have v: "(\<Sum>x\<leftarrow>notna xs. val x) = (\<Sum>x\<leftarrow>xs. val x)"
    by (induction xs) (simp_all add: notna_def isnan_def)
  have "(\<Sum>x\<leftarrow>notna xs. \<bar>val x\<bar>) \<le> (\<Sum>x\<leftarrow>xs. \<bar>val x\<bar>)"
    unfolding notna_def by (rule sum_list_filter_le) simp
  with assms(2) have b: "\<bar>0\<bar> + (\<Sum>x\<leftarrow>notna xs. \<bar>val x\<bar>) \<le> 2 ^ 53" by simp
  have "fst (foldl kahan_step (Fin 0, Fin 0) (notna xs)) = Fin (0 + (\<Sum>x\<leftarrow>notna xs. val x))"
    using n b assms(1) by (intro foldl_kahan_exact) (auto simp: notna_def)
  then show ?thesis by (simp add: group_sum_def v)
qed

text \<open>
  C2, as amended. Conservation holds when every addition is exact: if the net amounts
  of the frame are whole numbers whose absolute values sum to at most \<open>2 ^ 53\<close>, the
  monthly sums of the net amount, summed over all months, are the sum of the net amount
  over the whole frame. Every row lies in exactly one bin of the resampling, a month
  without rows adds \<open>0.0\<close>, and a compensated sum of exact additions is the exact sum.
\<close>

theorem monthly_sum_conservation:
  fixes df :: "timestamp derived list"
  assumes "\<forall>r \<in> set df. val (net_amount r) \<in> \<int>"
    and "(\<Sum>r\<leftarrow>df. \<bar>val (net_amount r)\<bar>) \<le> 2 ^ 53"
  shows "nansum (map net_amount (compute_monthly_sum df)) = nansum (map net_amount df)
       \<and> nansum (map net_amount df) = Fin (\<Sum>r\<leftarrow>df. val (net_amount r))"
proof -
  let ?v = "\<lambda>r. val (net_amount r)"
  let ?S = "\<lambda>k. \<Sum>r\<leftarrow>month_rows df k. ?v r"
  have total: "nansum (map net_amount df) = Fin (\<Sum>r\<leftarrow>df. ?v r)"
  proof -
    have "(\<Sum>x\<leftarrow>map net_amount df. \<bar>val x\<bar>) \<le> 2 ^ 53"
      using assms(2) by (simp add: comp_def)
    moreover have "val x \<in> \<int>" if "x \<in> set (map net_amount df)" for x
      using that assms(1) by auto
    ultimately have "nansum (map net_amount df) = Fin (\<Sum>x\<leftarrow>map net_amount df. val x)"
      by (intro nansum_exact)
    then show ?thesis by (simp add: comp_def)
  qed
  have sub: "set (month_rows df k) \<subseteq> set df" for k
    by (auto simp: month_rows_def)
  have bound: "(\<Sum>r\<leftarrow>month_rows df k. \<bar>?v r\<bar>) \<le> (\<Sum>r\<leftarrow>df. \<bar>?v r\<bar>)" for k
  proof -
    have "(\<Sum>r\<leftarrow>month_rows df k. \<bar>?v r\<bar>)
        \<le> (\<Sum>r\<leftarrow>sort_key (\<lambda>r. days_from_civil (index r)) df. \<bar>?v r\<bar>)"
      unfolding month_rows_def by (rule sum_list_filter_le) simp
    then show ?thesis by (simp only: sum_list_sort_key)
  qed
  have group: "group_sum (map net_amount (month_rows df k)) = Fin (?S k)" for k
  proof -
    have "(\<Sum>x\<leftarrow>map net_amount (month_rows df k). \<bar>val x\<bar>) \<le> 2 ^ 53"
      using bound [of k] assms(2) by (simp add: comp_def)
    moreover have "val x \<in> \<int>" if "x \<in> set (map net_amount (month_rows df k))" for x
      using that sub [of k] assms(1) by auto
    ultimately have "group_sum (map net_amount (month_rows df k))
        = Fin (\<Sum>x\<leftarrow>map net_amount (month_rows df k). val x)"
      by (intro group_sum_exact)
    then show ?thesis by (simp add: comp_def)
  qed
  have monthly: "map net_amount (compute_monthly_sum df) = map (\<lambda>k. Fin (?S k)) (month_bins df)"
    by (simp add: compute_monthly_sum_def resample_ME_bins agg_def comp_def group)
  have ints: "val x \<in> \<int>" if "x \<in> set (map (\<lambda>k. Fin (?S k)) (month_bins df))" for x
  proof -
    from that obtain k where "x = Fin (?S k)" by auto
    moreover have "?S k \<in> \<int>"
      using sub [of k] assms(1) by (intro sum_list_Ints) auto
    ultimately show ?thesis by simp
  qed
  have "(\<Sum>k\<leftarrow>month_bins df. \<bar>?S k\<bar>) \<le> (\<Sum>k\<leftarrow>month_bins df. \<Sum>r\<leftarrow>month_rows df k. \<bar>?v r\<bar>)"
  proof (intro sum_list_mono)
    fix k
    show "\<bar>?S k\<bar> \<le> (\<Sum>r\<leftarrow>month_rows df k. \<bar>?v r\<bar>)"
      using sum_list_abs [of "map ?v (month_rows df k)"] by (simp add: comp_def)
  qed
  also have "\<dots> = (\<Sum>r\<leftarrow>df. \<bar>?v r\<bar>)" by (rule sum_month_rows)
  finally have "(\<Sum>x\<leftarrow>map (\<lambda>k. Fin (?S k)) (month_bins df). \<bar>val x\<bar>) \<le> 2 ^ 53"
    using assms(2) by (simp add: comp_def)
  with ints have "nansum (map (\<lambda>k. Fin (?S k)) (month_bins df))
      = Fin (\<Sum>x\<leftarrow>map (\<lambda>k. Fin (?S k)) (month_bins df). val x)"
    by (intro nansum_exact)
  also have "(\<Sum>x\<leftarrow>map (\<lambda>k. Fin (?S k)) (month_bins df). val x) = (\<Sum>k\<leftarrow>month_bins df. ?S k)"
    by (simp add: comp_def)
  also have "\<dots> = (\<Sum>r\<leftarrow>df. ?v r)" by (rule sum_month_rows)
  finally show ?thesis using total monthly by simp
qed

theorem monthly_sum_conservation_witness:
  "nansum (map net_amount (compute_monthly_sum scenario_og)) = nansum (map net_amount scenario_og)
   \<and> nansum (map net_amount scenario_og) = Fin 50"
proof -
  have h1: "\<forall>r \<in> set scenario_og. val (net_amount r) \<in> \<int>"
    by (simp add: scenario_og_def)
  have h2: "(\<Sum>r\<leftarrow>scenario_og. \<bar>val (net_amount r)\<bar>) \<le> 2 ^ 53"
    by (simp add: scenario_og_def)
  have "(\<Sum>r\<leftarrow>scenario_og. val (net_amount r)) = 50"
    by (simp add: scenario_og_def)
  with monthly_sum_conservation [OF h1 h2] show ?thesis by simp
qed

text \<open>
  Without exact additions the two sums can differ. A frame with the net amount
  \<open>10 ^ 16\<close> in March 2024 and twice the net amount 1 in April 2024: over the frame,
  each 1 is lost in the rounding of \<open>10 ^ 16 + 1\<close>; the monthly sums are \<open>10 ^ 16\<close> and 2,
  and \<open>10 ^ 16 + 2\<close> is a float.
\<close>

lemma floor_half_big: "\<lfloor>(10000000000000001 :: rat) / 2\<rfloor> = 5000000000000000"
  by (rule floor_unique) simp_all

lemma rnd_big:
  "rnd 10000000000000000 = 10000000000000000"
  "rnd 10000000000000001 = 10000000000000000"
  "rnd 10000000000000002 = 10000000000000002"
  by (subst rnd_formula [where k = 53]; simp add: rhe_def Let_def floor_half_big)+

text \<open>
  The compensated sum of a group recovers what the plain sum loses: over \<open>10 ^ 16\<close>, 1
  and 1 it is \<open>10 ^ 16 + 2\<close>, where the plain sum is \<open>10 ^ 16\<close>.
\<close>

lemma group_sum_compensated:
  "group_sum [Fin 10000000000000000, Fin 1, Fin 1] = Fin 10000000000000002"
  "nansum [Fin 10000000000000000, Fin 1, Fin 1] = Fin 10000000000000000"
proof -
  have "rnd (- 1) = - 1" by (rule rnd_int) simp_all
  then show "group_sum [Fin 10000000000000000, Fin 1, Fin 1] = Fin 10000000000000002"
    by (simp add: group_sum_def fsub_def notna_def isnan_def rnd_big Let_def)
  show "nansum [Fin 10000000000000000, Fin 1, Fin 1] = Fin 10000000000000000"
    by (simp add: nansum_def notna_def isnan_def rnd_big)
qed

lemma big_month_bins:
  "month_bins
     [\<lparr>debit = Fin 0, credit = Fin 10000000000000000,
        index = \<lparr>year = 2024, month = 3, mday = 8\<rparr>, net_amount = Fin 10000000000000000\<rparr>,
      \<lparr>debit = Fin 0, credit = Fin 1,
        index = \<lparr>year = 2024, month = 4, mday = 2\<rparr>, net_amount = Fin 1\<rparr>,
      \<lparr>debit = Fin 0, credit = Fin 1,
        index = \<lparr>year = 2024, month = 4, mday = 3\<rparr>, net_amount = Fin 1\<rparr>] = [24290, 24291]"
  by (simp add: month_bins_def month_index_def upt_rec)

lemma big_month_rows:
  "map net_amount (month_rows
     [\<lparr>debit = Fin 0, credit = Fin 10000000000000000,
        index = \<lparr>year = 2024, month = 3, mday = 8\<rparr>, net_amount = Fin 10000000000000000\<rparr>,
      \<lparr>debit = Fin 0, credit = Fin 1,
        index = \<lparr>year = 2024, month = 4, mday = 2\<rparr>, net_amount = Fin 1\<rparr>,
      \<lparr>debit = Fin 0, credit = Fin 1,
        index = \<lparr>year = 2024, month = 4, mday = 3\<rparr>, net_amount = Fin 1\<rparr>] 24290) = [Fin 10000000000000000]"
  "map net_amount (month_rows
     [\<lparr>debit = Fin 0, credit = Fin 10000000000000000,
        index = \<lparr>year = 2024, month = 3, mday = 8\<rparr>, net_amount = Fin 10000000000000000\<rparr>,
      \<lparr>debit = Fin 0, credit = Fin 1,
        index = \<lparr>year = 2024, month = 4, mday = 2\<rparr>, net_amount = Fin 1\<rparr>,
      \<lparr>debit = Fin 0, credit = Fin 1,
        index = \<lparr>year = 2024, month = 4, mday = 3\<rparr>, net_amount = Fin 1\<rparr>] 24291) = [Fin 1, Fin 1]"
  by (simp_all add: month_rows_def month_index_def days_from_civil_def)

theorem monthly_sum_conservation_counterexample:
  "nansum (map net_amount (compute_monthly_sum
     [\<lparr>debit = Fin 0, credit = Fin 10000000000000000,
        index = \<lparr>year = 2024, month = 3, mday = 8\<rparr>, net_amount = Fin 10000000000000000\<rparr>,
      \<lparr>debit = Fin 0, credit = Fin 1,
        index = \<lparr>year = 2024, month = 4, mday = 2\<rparr>, net_amount = Fin 1\<rparr>,
      \<lparr>debit = Fin 0, credit = Fin 1,
        index = \<lparr>year = 2024, month = 4, mday = 3\<rparr>, net_amount = Fin 1\<rparr>]))
   \<noteq> nansum (map net_amount
     [\<lparr>debit = Fin 0, credit = Fin 10000000000000000,
        index = \<lparr>year = 2024, month = 3, mday = 8\<rparr>, net_amount = Fin 10000000000000000\<rparr>,
      \<lparr>debit = Fin 0, credit = Fin 1,
        index = \<lparr>year = 2024, month = 4, mday = 2\<rparr>, net_amount = Fin 1\<rparr>,
      \<lparr>debit = Fin 0, credit = Fin 1,
        index = \<lparr>year = 2024, month = 4, mday = 3\<rparr>, net_amount = Fin 1\<rparr>])"
proof -
  have "map net_amount (compute_monthly_sum
     [\<lparr>debit = Fin 0, credit = Fin 10000000000000000,
        index = \<lparr>year = 2024, month = 3, mday = 8\<rparr>, net_amount = Fin 10000000000000000\<rparr>,
      \<lparr>debit = Fin 0, credit = Fin 1,
        index = \<lparr>year = 2024, month = 4, mday = 2\<rparr>, net_amount = Fin 1\<rparr>,
      \<lparr>debit = Fin 0, credit = Fin 1,
        index = \<lparr>year = 2024, month = 4, mday = 3\<rparr>, net_amount = Fin 1\<rparr>]) = [Fin 10000000000000000, Fin 2]"
    unfolding compute_monthly_sum_def resample_ME_bins big_month_bins
    by (simp add: agg_def big_month_rows group_sum_def fsub_def notna_def isnan_def rnd_big)
  then have "nansum (map net_amount (compute_monthly_sum
     [\<lparr>debit = Fin 0, credit = Fin 10000000000000000,
        index = \<lparr>year = 2024, month = 3, mday = 8\<rparr>, net_amount = Fin 10000000000000000\<rparr>,
      \<lparr>debit = Fin 0, credit = Fin 1,
        index = \<lparr>year = 2024, month = 4, mday = 2\<rparr>, net_amount = Fin 1\<rparr>,
      \<lparr>debit = Fin 0, credit = Fin 1,
        index = \<lparr>year = 2024, month = 4, mday = 3\<rparr>, net_amount = Fin 1\<rparr>])) = Fin 10000000000000002"
    by (simp add: nansum_def notna_def isnan_def rnd_big)
  moreover have "nansum (map net_amount
     [\<lparr>debit = Fin 0, credit = Fin 10000000000000000,
        index = \<lparr>year = 2024, month = 3, mday = 8\<rparr>, net_amount = Fin 10000000000000000\<rparr>,
      \<lparr>debit = Fin 0, credit = Fin 1,
        index = \<lparr>year = 2024, month = 4, mday = 2\<rparr>, net_amount = Fin 1\<rparr>,
      \<lparr>debit = Fin 0, credit = Fin 1,
        index = \<lparr>year = 2024, month = 4, mday = 3\<rparr>, net_amount = Fin 1\<rparr>]) = Fin 10000000000000000"
    by (simp add: nansum_def notna_def isnan_def rnd_big)
  ultimately show ?thesis by simp
qed

section \<open>The scenario\<close>

lemma scenario_set_index: "set_index \<lparr>columns = header scenario_file, rows = lines scenario_file\<rparr>
   = Inr ([Debit, Credit], map (\<lambda>r. \<lparr>debit = debit r, credit = credit r, index = index r\<rparr>) scenario_og)"
  by (simp add: set_index_def scenario_file_def scenario_og_def)

lemma scenario_apply: "apply_net_amount [Debit, Credit]
    (map (\<lambda>r. \<lparr>debit = debit r, credit = credit r, index = index r\<rparr>) scenario_og) = Inr scenario_og"
  by (simp add: apply_net_amount_def calculate_net_amount_def sub_items_def getitem_def
        fsub_def feq_def isnan_def scenario_og_def)

lemma scenario_month_bins: "month_bins scenario_og = [24288, 24289]"
  by (simp add: month_bins_def month_index_def upt_rec scenario_og_def)

lemma scenario_month_rows: "month_rows scenario_og 24288 = [scenario_og ! 0, scenario_og ! 1]" "month_rows scenario_og 24289 = [scenario_og ! 2]"
  by (simp_all add: month_rows_def month_index_def days_from_civil_def scenario_og_def)

lemma scenario_labels: "strftime_B_Y (month_end 24288) = ''January 2024''"
  "strftime_B_Y (month_end 24289) = ''February 2024''"
  by (simp_all add: month_label_eq month_names_def show_nat.simps digit_chars_def)

lemma scenario_merged_df: "merged_df scenario_og =
   [\<lparr>debit = Fin 15, credit = Fin 45, month_name = ''January 2024'', sum_net_amount = Fin 30,
     avg_net_amount = Fin 15, median_net_amount = Fin 15\<rparr>,
    \<lparr>debit = Fin 0, credit = Fin 20, month_name = ''February 2024'', sum_net_amount = Fin 20,
     avg_net_amount = Fin 20, median_net_amount = Fin 20\<rparr>]"
  unfolding merged_df_bins scenario_month_bins list.map scenario_month_rows scenario_labels
  by (simp add: scenario_og_def group_sum_def group_mean_def nanmedian_def fsub_def notna_def
      isnan_def Let_def)

text \<open>
  C6. On the three rows of the scenario the derived net amounts are 30, 0.0 and 20; the
  monthly sum is 30.0 for "January 2024" and 20.0 for "February 2024"; the monthly
  average of January is 15.0 and its median is 15.0. \<open>main\<close> shows these tables.
\<close>

theorem scenario_monthly_values:
  "set_index \<lparr>columns = header scenario_file, rows = lines scenario_file\<rparr>
     = Inr ([Debit, Credit],
            map (\<lambda>r. \<lparr>debit = debit r, credit = credit r, index = index r\<rparr>) scenario_og)
   \<and> apply_net_amount [Debit, Credit]
       (map (\<lambda>r. \<lparr>debit = debit r, credit = credit r, index = index r\<rparr>) scenario_og)
     = Inr scenario_og
   \<and> map net_amount scenario_og = [Fin 30, Fin 0, Fin 20]
   \<and> map (\<lambda>r. (month_name r, sum_net_amount r)) (merged_df scenario_og)
     = [(''January 2024'', Fin 30), (''February 2024'', Fin 20)]
   \<and> map (\<lambda>r. (month_name r, avg_net_amount r, median_net_amount r)) (merged_df scenario_og)
     = [(''January 2024'', Fin 15, Fin 15), (''February 2024'', Fin 20, Fin 20)]
   \<and> main (Some scenario_file)
     = Inr (preamble @
            [Columns (col1 (merged_df scenario_og)) (col2 (compute_weekday_sum scenario_og))])"
proof -
  have n: "map net_amount scenario_og = [Fin 30, Fin 0, Fin 20]"
    by (simp add: scenario_og_def)
  have m1: "map (\<lambda>r. (month_name r, sum_net_amount r)) (merged_df scenario_og)
     = [(''January 2024'', Fin 30), (''February 2024'', Fin 20)]"
    by (simp add: scenario_merged_df)
  have m2: "map (\<lambda>r. (month_name r, avg_net_amount r, median_net_amount r)) (merged_df scenario_og)
     = [(''January 2024'', Fin 15, Fin 15), (''February 2024'', Fin 20, Fin 20)]"
    by (simp add: scenario_merged_df)
  have r: "read_csv scenario_file
      = Inr \<lparr>columns = header scenario_file, rows = lines scenario_file\<rparr>"
    by (simp add: read_csv_def scenario_file_def)
  have e: "\<not> is_empty \<lparr>columns = header scenario_file, rows = lines scenario_file\<rparr>"
    by (simp add: is_empty_def scenario_file_def)
  have p: "main (Some scenario_file)
     = Inr (preamble @
            [Columns (col1 (merged_df scenario_og)) (col2 (compute_weekday_sum scenario_og))])"
    unfolding main_def by (simp add: r e scenario_set_index scenario_apply)
  from scenario_set_index scenario_apply n m1 m2 p show ?thesis by blast
qed

section \<open>Empty files and missing columns\<close>

lemma charts_preamble: "charts preamble = []"
  by (simp add: charts_def preamble_def)

lemma main_no_rows:
  assumes "header f \<noteq> []" and "lines f = []"
  shows "main (Some f) = Inr preamble"
  using assms by (simp add: main_def read_csv_def is_empty_def)

lemma main_None: "main None = Inr preamble"
  by (simp add: main_def is_empty_def)

text \<open>
  C5, as amended. For a file that has a header line and no data row, \<open>main\<close> raises
  nothing and the page is the one shown before any upload: the title and the upload
  control. The guard on \<^verbatim>\<open>og_df.empty\<close> skips the whole analysis, so no aggregate table
  is derived and no chart is drawn.
\<close>

theorem empty_file_renders_no_charts:
  assumes "header f \<noteq> []" and "lines f = []"
  shows "main (Some f) = Inr preamble \<and> charts preamble = [] \<and> main (Some f) = main None"
  using main_no_rows [OF assms] charts_preamble main_None by simp

theorem empty_file_renders_no_charts_witness:
  "header \<lparr>header = [Date, Debit, Credit], lines = []\<rparr> \<noteq> []
   \<and> lines \<lparr>header = [Date, Debit, Credit], lines = []\<rparr> = []
   \<and> main (Some \<lparr>header = [Date, Debit, Credit], lines = []\<rparr>) = Inr preamble
   \<and> charts preamble = []"
proof -
  have h1: "header \<lparr>header = [Date, Debit, Credit], lines = []\<rparr> \<noteq> []"
    and h2: "lines \<lparr>header = [Date, Debit, Credit], lines = []\<rparr> = []"
    by simp_all
  from empty_file_renders_no_charts [OF h1 h2] h1 h2 show ?thesis by blast
qed

text \<open>
  The page of such a file has no chart at all, so it does not render empty charts.
\<close>

theorem empty_file_charts_counterexample:
  "\<not> (\<exists>p. main (Some \<lparr>header = [Date, Debit, Credit], lines = []\<rparr>) = Inr p
           \<and> charts p \<noteq> [])"
proof -
  have "main (Some \<lparr>header = [Date, Debit, Credit], lines = []\<rparr>) = Inr preamble"
    by (rule main_no_rows) simp_all
  then show ?thesis by (simp add: charts_preamble)
qed






end
